theory Spec2Isabelle
  imports Main "HOL-Library.Word" "HOL-Library.Signed_Division"
begin

unbundle bit_operations_syntax

section \<open>Machine types\<close>

text \<open>
  The embedding follows \<^verbatim>\<open>wav_rw.cc\<close> and \<^verbatim>\<open>wav_rw.h\<close>. Fixed-width integers are
  words; the C++ type \<^verbatim>\<open>int\<close> is a 32-bit word read as two's complement, and
  \<^verbatim>\<open>size_t\<close> is a 64-bit word. The header struct is overlaid on memory by
  \<^verbatim>\<open>memcpy\<close> and \<^verbatim>\<open>fread\<close>; the host is little-endian (\<^verbatim>\<open>WriteLE16\<close> and
  \<^verbatim>\<open>WriteLE32\<close> are plain stores), so a field's bytes are its little-endian bytes.
  An \<^verbatim>\<open>assert\<close> that fails aborts the program: it is an error value of the model.
\<close>

type_synonym uint8_t = "8 word"
type_synonym uint16_t = "16 word"
type_synonym int16_t = "16 word"
type_synonym uint32_t = "32 word"
type_synonym uint64_t = "64 word"
type_synonym size_t = "64 word"
type_synonym cint = "32 word"

datatype error = AssertionFailed | UndefinedBehaviour

text \<open>Division of two \<^verbatim>\<open>int\<close> values truncates towards zero.\<close>

definition int_div :: "cint \<Rightarrow> cint \<Rightarrow> cint" where
  "int_div a b = word_of_int (sint a sdiv sint b)"

section \<open>Header layout\<close>

text \<open>
  \<^verbatim>\<open>struct WavHeader\<close> with its nested structs flattened: the RIFF chunk header and
  format tag, the \<^verbatim>\<open>FmtSubchunk\<close>, and the data chunk header. No field needs padding,
  so the struct occupies 44 bytes.
\<close>

record WavHeader =
  riff_ID :: uint32_t
  riff_Size :: uint32_t
  riff_Format :: uint32_t
  fmt_ID :: uint32_t
  fmt_Size :: uint32_t
  fmt_AudioFormat :: uint16_t
  fmt_NumChannels :: uint16_t
  fmt_SampleRate :: uint32_t
  fmt_ByteRate :: uint32_t
  fmt_BlockAlign :: uint16_t
  fmt_BitsPerSample :: uint16_t
  data_ID :: uint32_t
  data_Size :: uint32_t

text \<open>The bytes of a 16-bit and of a 32-bit object in memory, and the objects read back.\<close>

definition bytes16 :: "16 word \<Rightarrow> uint8_t list" where
  "bytes16 x = [ucast x, ucast (drop_bit 8 x)]"

definition bytes32 :: "32 word \<Rightarrow> uint8_t list" where
  "bytes32 x = [ucast x, ucast (drop_bit 8 x), ucast (drop_bit 16 x), ucast (drop_bit 24 x)]"

fun load16 :: "uint8_t list \<Rightarrow> 16 word" where
  "load16 (a # b # _) = ucast a OR push_bit 8 (ucast b)"
| "load16 _ = 0"

fun load32 :: "uint8_t list \<Rightarrow> 32 word" where
  "load32 (a # b # c # d # _) =
     ucast a OR push_bit 8 (ucast b) OR push_bit 16 (ucast c) OR push_bit 24 (ucast d)"
| "load32 _ = 0"

text \<open>\<^verbatim>\<open>memcpy(buf, &header, kWavHeaderSize)\<close>: the struct as 44 bytes.\<close>

definition header_bytes :: "WavHeader \<Rightarrow> uint8_t list" where
  "header_bytes h =
     bytes32 (riff_ID h) @ bytes32 (riff_Size h) @ bytes32 (riff_Format h) @
     bytes32 (fmt_ID h) @ bytes32 (fmt_Size h) @
     bytes16 (fmt_AudioFormat h) @ bytes16 (fmt_NumChannels h) @
     bytes32 (fmt_SampleRate h) @ bytes32 (fmt_ByteRate h) @
     bytes16 (fmt_BlockAlign h) @ bytes16 (fmt_BitsPerSample h) @
     bytes32 (data_ID h) @ bytes32 (data_Size h)"

text \<open>The struct whose memory holds the given bytes (the two reads of the decoder
  fill the first 36 bytes and the last 8).\<close>

definition header_of_bytes :: "uint8_t list \<Rightarrow> WavHeader" where
  "header_of_bytes b =
     \<lparr> riff_ID = load32 b, riff_Size = load32 (drop 4 b), riff_Format = load32 (drop 8 b),
       fmt_ID = load32 (drop 12 b), fmt_Size = load32 (drop 16 b),
       fmt_AudioFormat = load16 (drop 20 b), fmt_NumChannels = load16 (drop 22 b),
       fmt_SampleRate = load32 (drop 24 b), fmt_ByteRate = load32 (drop 28 b),
       fmt_BlockAlign = load16 (drop 32 b), fmt_BitsPerSample = load16 (drop 34 b),
       data_ID = load32 (drop 36 b), data_Size = load32 (drop 40 b) \<rparr>"

section \<open>Constants and helpers\<close>

text \<open>\<^verbatim>\<open>enum WavFormat\<close> is an integer type: the decoder casts any 16-bit value to it.\<close>

type_synonym WavFormat = "32 word"

definition kWavFormatPcm :: WavFormat where "kWavFormatPcm = 1"
definition kWavFormatALaw :: WavFormat where "kWavFormatALaw = 6"
definition kWavFormatMuLaw :: WavFormat where "kWavFormatMuLaw = 7"

definition kWavHeaderSize :: size_t where "kWavHeaderSize = 44"
definition sizeof_ChunkHeader :: size_t where "sizeof_ChunkHeader = 8"
definition sizeof_FmtSubchunk :: size_t where "sizeof_FmtSubchunk = 24"
definition kWavFormat :: WavFormat where "kWavFormat = kWavFormatPcm"
definition kBytesPerSample :: cint where "kBytesPerSample = 2"

definition UINT32_MAX :: uint32_t where "UINT32_MAX = 0xFFFFFFFF"
definition UINT16_MAX :: uint16_t where "UINT16_MAX = 0xFFFF"

definition WriteFourCC :: "char \<Rightarrow> char \<Rightarrow> char \<Rightarrow> char \<Rightarrow> uint32_t" where
  "WriteFourCC a b c d =
     of_char a OR push_bit 8 (of_char b) OR push_bit 16 (of_char c) OR push_bit 24 (of_char d)"

definition ReadFourCC :: "uint32_t \<Rightarrow> string" where
  "ReadFourCC x = map (\<lambda>b. char_of (unat b)) (bytes32 x)"

text \<open>The sum is formed in \<^verbatim>\<open>size_t\<close> and narrowed to the 32-bit return type.\<close>

definition RiffChunkSize :: "uint32_t \<Rightarrow> uint32_t" where
  "RiffChunkSize bytes_in_payload =
     ucast ((ucast bytes_in_payload :: size_t) + kWavHeaderSize - sizeof_ChunkHeader)"

text \<open>The product is formed in \<^verbatim>\<open>uint32_t\<close> (the first factor is cast, the others are
  converted), so it wraps modulo \<open>2 ^ 32\<close>.\<close>

definition ByteRate :: "cint \<Rightarrow> cint \<Rightarrow> cint \<Rightarrow> uint32_t" where
  "ByteRate num_channels sample_rate bytes_per_sample =
     num_channels * sample_rate * bytes_per_sample"

text \<open>The product is formed in \<^verbatim>\<open>int\<close> and narrowed to the 16-bit return type.\<close>

definition BlockAlign :: "cint \<Rightarrow> cint \<Rightarrow> uint16_t" where
  "BlockAlign num_channels bytes_per_sample = ucast (num_channels * bytes_per_sample)"

definition kFmtSubchunkSize :: uint32_t where
  "kFmtSubchunkSize = ucast (sizeof_FmtSubchunk - sizeof_ChunkHeader)"

section \<open>Parameter validator\<close>

text \<open>
  The checks in the order of the source. A cast of an \<^verbatim>\<open>int\<close> to \<^verbatim>\<open>uint64_t\<close>
  sign-extends (\<open>scast\<close>); the \<^verbatim>\<open>switch\<close> on the format is the nested conditional,
  its \<^verbatim>\<open>default\<close> the last branch; \<open>max_samples\<close> is computed in \<^verbatim>\<open>size_t\<close> and
  narrowed; the remainder is taken in \<^verbatim>\<open>uint32_t\<close>.
\<close>

definition CheckWavParameters ::
  "cint \<Rightarrow> cint \<Rightarrow> WavFormat \<Rightarrow> cint \<Rightarrow> uint32_t \<Rightarrow> bool" where
  "CheckWavParameters num_channels sample_rate format bytes_per_sample num_samples =
     (if sint num_channels \<le> 0 \<or> sint sample_rate \<le> 0 \<or> sint bytes_per_sample \<le> 0
      then False
      else if (scast sample_rate :: uint64_t) > ucast UINT32_MAX then False
      else if (scast num_channels :: uint64_t) > ucast UINT16_MAX then False
      else if (scast bytes_per_sample :: uint64_t) * 8 > ucast UINT16_MAX then False
      else if (scast sample_rate :: uint64_t) * scast num_channels * scast bytes_per_sample
                > ucast UINT32_MAX then False
      else if (if format = kWavFormatPcm
               then bytes_per_sample \<noteq> 1 \<and> bytes_per_sample \<noteq> 2
               else if format = kWavFormatALaw \<or> format = kWavFormatMuLaw
               then bytes_per_sample \<noteq> 1
               else True)
      then False
      else
        let max_samples = (ucast (((ucast UINT32_MAX :: size_t)
                             - (kWavHeaderSize - sizeof_ChunkHeader))
                            div (scast bytes_per_sample :: size_t)) :: uint32_t)
        in if num_samples > max_samples then False
           else if num_samples mod num_channels \<noteq> 0 then False
           else True)"

section \<open>Header codec\<close>

text \<open>\<^verbatim>\<open>WriteWavHeader\<close>: the assertion first, then the thirteen stores and the copy.\<close>

definition WriteWavHeader_struct ::
  "cint \<Rightarrow> cint \<Rightarrow> WavFormat \<Rightarrow> cint \<Rightarrow> uint32_t \<Rightarrow> WavHeader" where
  "WriteWavHeader_struct num_channels sample_rate format bytes_per_sample num_samples =
     (let bytes_in_payload = bytes_per_sample * num_samples in
      \<lparr> riff_ID = WriteFourCC CHR ''R'' CHR ''I'' CHR ''F'' CHR ''F'',
        riff_Size = RiffChunkSize bytes_in_payload,
        riff_Format = WriteFourCC CHR ''W'' CHR ''A'' CHR ''V'' CHR ''E'',
        fmt_ID = WriteFourCC CHR ''f'' CHR ''m'' CHR ''t'' CHR '' '',
        fmt_Size = kFmtSubchunkSize,
        fmt_AudioFormat = ucast format,
        fmt_NumChannels = ucast num_channels,
        fmt_SampleRate = sample_rate,
        fmt_ByteRate = ByteRate num_channels sample_rate bytes_per_sample,
        fmt_BlockAlign = BlockAlign num_channels bytes_per_sample,
        fmt_BitsPerSample = ucast (8 * bytes_per_sample),
        data_ID = WriteFourCC CHR ''d'' CHR ''a'' CHR ''t'' CHR ''a'',
        data_Size = bytes_in_payload \<rparr>)"

definition WriteWavHeader ::
  "cint \<Rightarrow> cint \<Rightarrow> WavFormat \<Rightarrow> cint \<Rightarrow> uint32_t \<Rightarrow> error + uint8_t list" where
  "WriteWavHeader num_channels sample_rate format bytes_per_sample num_samples =
     (if \<not> CheckWavParameters num_channels sample_rate format bytes_per_sample num_samples
      then Inl AssertionFailed
      else Inr (header_bytes
        (WriteWavHeader_struct num_channels sample_rate format bytes_per_sample num_samples)))"

text \<open>
  \<^verbatim>\<open>ReadableWav::Read\<close> on a byte source: the bytes delivered (at most \<open>num_bytes\<close>)
  and the rest of the source. The number of bytes read is the length of the first.
\<close>

definition Read :: "uint8_t list \<Rightarrow> nat \<Rightarrow> uint8_t list \<times> uint8_t list" where
  "Read readable num_bytes = (take num_bytes readable, drop num_bytes readable)"

text \<open>
  \<^verbatim>\<open>ReadWavHeader\<close>: \<open>None\<close> is the result \<^verbatim>\<open>false\<close>; \<open>Some\<close> carries the five output
  parameters and the source after the header.
\<close>

definition ReadWavHeader ::
  "uint8_t list \<Rightarrow> ((cint \<times> cint \<times> WavFormat \<times> cint \<times> uint32_t) \<times> uint8_t list) option" where
  "ReadWavHeader readable =
     (let (b1, r1) = Read readable 36 in
      if length b1 \<noteq> 36 then None
      else
        let fmt_size = fmt_Size (header_of_bytes b1) in
        case (if fmt_size \<noteq> kFmtSubchunkSize
              then (if (ucast kFmtSubchunkSize :: size_t) + 2 \<noteq> ucast fmt_size then None
                    else let (e, r2) = Read r1 2 in
                      if length e \<noteq> 2 then None
                      else if load16 e \<noteq> 0 then None
                      else Some r2)
              else Some r1) of
          None \<Rightarrow> None
        | Some r2 \<Rightarrow>
            let (b2, r3) = Read r2 8 in
            if length b2 \<noteq> 8 then None
            else
              let header = header_of_bytes (b1 @ b2);
                  format = (ucast (fmt_AudioFormat header) :: WavFormat);
                  num_channels = (ucast (fmt_NumChannels header) :: cint);
                  sample_rate = (fmt_SampleRate header :: cint);
                  bytes_per_sample = int_div (ucast (fmt_BitsPerSample header)) 8;
                  bytes_in_payload = data_Size header
              in
              if sint bytes_per_sample \<le> 0 then None
              else
                let num_samples = bytes_in_payload div bytes_per_sample in
                if ReadFourCC (riff_ID header) \<noteq> ''RIFF'' then None
                else if ReadFourCC (riff_Format header) \<noteq> ''WAVE'' then None
                else if ReadFourCC (fmt_ID header) \<noteq> ''fmt '' then None
                else if ReadFourCC (data_ID header) \<noteq> ''data'' then None
                else if riff_Size header < RiffChunkSize bytes_in_payload then None
                else if fmt_ByteRate header
                          \<noteq> ByteRate num_channels sample_rate bytes_per_sample then None
                else if fmt_BlockAlign header \<noteq> BlockAlign num_channels bytes_per_sample
                then None
                else if CheckWavParameters num_channels sample_rate format
                          bytes_per_sample num_samples
                then Some ((num_channels, sample_rate, format, bytes_per_sample, num_samples), r3)
                else None)"

section \<open>Single-precision values\<close>

text \<open>
  A \<^verbatim>\<open>float\<close> is its IEEE 754 binary32 bit pattern: sign bit, eight exponent bits,
  twenty-three fraction bits. Every finite value is an integer multiple of \<open>2\<^sup>-\<^sup>1\<^sup>4\<^sup>9\<close>;
  \<open>f32_num\<close> is that integer, so the value of \<open>v\<close> is \<open>f32_num v / 2 ^ 149\<close>. For the
  two infinities the same formula gives \<open>\<plusminus> 2 ^ 277\<close>, beyond every finite value, which
  is all that comparisons need. Sums are formed exactly and rounded to the nearest
  binary32 value, ties to the even fraction (the default rounding mode, with \<^verbatim>\<open>float\<close>
  expressions evaluated in single precision).
\<close>

type_synonym float = "32 word"

definition f32_sign :: "float \<Rightarrow> bool" where
  "f32_sign v = (2 ^ 31 \<le> unat v)"

definition f32_exp :: "float \<Rightarrow> nat" where
  "f32_exp v = unat v div 2 ^ 23 mod 256"

definition f32_frac :: "float \<Rightarrow> nat" where
  "f32_frac v = unat v mod 2 ^ 23"

definition f32_isnan :: "float \<Rightarrow> bool" where
  "f32_isnan v = (f32_exp v = 255 \<and> f32_frac v \<noteq> 0)"

definition f32_isinf :: "float \<Rightarrow> bool" where
  "f32_isinf v = (f32_exp v = 255 \<and> f32_frac v = 0)"

definition f32_mag :: "float \<Rightarrow> nat" where
  "f32_mag v = (if f32_exp v = 0 then f32_frac v
                else (2 ^ 23 + f32_frac v) * 2 ^ (f32_exp v - 1))"

definition f32_num :: "float \<Rightarrow> int" where
  "f32_num v = (if f32_sign v then - int (f32_mag v) else int (f32_mag v))"

definition f32_pack :: "bool \<Rightarrow> nat \<Rightarrow> nat \<Rightarrow> float" where
  "f32_pack s e f = of_nat ((if s then 2 ^ 31 else 0) + e * 2 ^ 23 + f)"

definition f32_nan :: float where "f32_nan = 0x7FC00000"
definition f32_half :: float where "f32_half = 0x3F000000"

fun bit_length :: "nat \<Rightarrow> nat" where
  "bit_length n = (if n = 0 then 0 else Suc (bit_length (n div 2)))"

declare bit_length.simps [simp del]

text \<open>The binary32 value nearest to \<open>\<plusminus> m / 2 ^ 149\<close>, ties to even, infinity on overflow.\<close>

definition f32_round :: "bool \<Rightarrow> nat \<Rightarrow> float" where
  "f32_round s m =
     (if m < 2 ^ 24 then f32_pack s (m div 2 ^ 23) (m mod 2 ^ 23)
      else
        let sh = bit_length m - 24;
            q = m div 2 ^ sh;
            r = m mod 2 ^ sh;
            half = 2 ^ (sh - 1);
            q1 = (if half < r \<or> (r = half \<and> odd q) then q + 1 else q);
            sh1 = (if q1 = 2 ^ 24 then sh + 1 else sh);
            q2 = (if q1 = 2 ^ 24 then 2 ^ 23 else q1)
        in if 255 \<le> sh1 + 1 then f32_pack s 255 0 else f32_pack s (sh1 + 1) (q2 - 2 ^ 23))"

definition f32_add :: "float \<Rightarrow> float \<Rightarrow> float" where
  "f32_add a b =
     (if f32_isnan a \<or> f32_isnan b then f32_nan
      else if f32_isinf a then (if f32_isinf b \<and> f32_sign a \<noteq> f32_sign b then f32_nan else a)
      else if f32_isinf b then b
      else
        let s = f32_num a + f32_num b in
        if s = 0 then f32_pack (f32_sign a \<and> f32_sign b) 0 0
        else f32_round (s < 0) (nat \<bar>s\<bar>))"

definition f32_neg :: "float \<Rightarrow> float" where
  "f32_neg v = v XOR 0x80000000"

definition f32_sub :: "float \<Rightarrow> float \<Rightarrow> float" where
  "f32_sub a b = f32_add a (f32_neg b)"

text \<open>Conversion of an \<^verbatim>\<open>int\<close> to \<^verbatim>\<open>float\<close>.\<close>

definition f32_of_int :: "int \<Rightarrow> float" where
  "f32_of_int i = (if i = 0 then 0 else f32_round (i < 0) (nat \<bar>i\<bar> * 2 ^ 149))"

text \<open>Comparisons are false as soon as one side is a NaN.\<close>

definition f32_gt :: "float \<Rightarrow> float \<Rightarrow> bool" where
  "f32_gt a b = (\<not> f32_isnan a \<and> \<not> f32_isnan b \<and> f32_num b < f32_num a)"

definition f32_ge :: "float \<Rightarrow> float \<Rightarrow> bool" where
  "f32_ge a b = (\<not> f32_isnan a \<and> \<not> f32_isnan b \<and> f32_num b \<le> f32_num a)"

definition f32_le :: "float \<Rightarrow> float \<Rightarrow> bool" where
  "f32_le a b = (\<not> f32_isnan a \<and> \<not> f32_isnan b \<and> f32_num a \<le> f32_num b)"

text \<open>
  \<^verbatim>\<open>static_cast<int16_t>\<close> of a \<^verbatim>\<open>float\<close> drops the fractional part; when the
  result does not fit the target type (or the operand is a NaN or an infinity) the
  behaviour is undefined: \<open>None\<close>.
\<close>

definition f32_to_int16 :: "float \<Rightarrow> int16_t option" where
  "f32_to_int16 v =
     (if f32_isnan v \<or> f32_isinf v then None
      else
        let t = int (f32_mag v div 2 ^ 149);
            i = (if f32_sign v then - t else t)
        in if - 32768 \<le> i \<and> i \<le> 32767 then Some (word_of_int i) else None)"

definition int16_max :: int16_t where "int16_max = 32767"
definition int16_min :: int16_t where "int16_min = - 32768"

definition kMaxRound :: float where
  "kMaxRound = f32_sub (f32_of_int (sint int16_max)) f32_half"

definition kMinRound :: float where
  "kMinRound = f32_add (f32_of_int (sint int16_min)) f32_half"

definition FloatS16ToS16 :: "float \<Rightarrow> int16_t option" where
  "FloatS16ToS16 v =
     (if f32_gt v (f32_of_int 0)
      then (if f32_ge v kMaxRound then Some int16_max else f32_to_int16 (f32_add v f32_half))
      else (if f32_le v kMinRound then Some int16_min else f32_to_int16 (f32_sub v f32_half)))"

text \<open>The array version: undefined as soon as one element is.\<close>

fun FloatS16ToS16_array :: "float list \<Rightarrow> int16_t list option" where
  "FloatS16ToS16_array [] = Some []"
| "FloatS16ToS16_array (v # src) =
     (case FloatS16ToS16 v of
        None \<Rightarrow> None
      | Some x \<Rightarrow> (case FloatS16ToS16_array src of None \<Rightarrow> None | Some dest \<Rightarrow> Some (x # dest)))"

text \<open>
  The conversion in the words of the specification, for comparison with
  \<open>FloatS16ToS16\<close>: the integer nearest to \<open>n / 2 ^ 149\<close>, a half rounded away from
  zero, and the clamp to the signed 16-bit range. Neither is taken from the source.
\<close>

definition round_half_away_from_zero :: "int \<Rightarrow> int" where
  "round_half_away_from_zero n = sgn n * ((\<bar>n\<bar> + 2 ^ 148) div 2 ^ 149)"

definition saturate16 :: "int \<Rightarrow> int" where
  "saturate16 i = max (- 32768) (min 32767 i)"

section \<open>Files\<close>

text \<open>
  A \<^verbatim>\<open>FILE\<close> is its contents, the position of the next access and the end-of-file
  indicator. Reads deliver what the contents hold and writes are never short (no device
  errors); a short write would stop the writer at its next assertion.
\<close>

record FILE =
  contents :: "uint8_t list"
  pos :: nat
  eof :: bool

text \<open>\<^verbatim>\<open>fopen(name, "rb")\<close> on a file with the given contents, and \<^verbatim>\<open>fopen(name, "wb")\<close>.\<close>

definition fopen_rb :: "uint8_t list \<Rightarrow> FILE" where
  "fopen_rb bs = \<lparr> contents = bs, pos = 0, eof = False \<rparr>"

definition fopen_wb :: FILE where
  "fopen_wb = \<lparr> contents = [], pos = 0, eof = False \<rparr>"

text \<open>
  \<^verbatim>\<open>fread(buf, size, count, f)\<close>: the bytes of the complete items read, their number,
  and the file afterwards. The indicator is set when the request runs into the end.
\<close>

definition fread :: "FILE \<Rightarrow> nat \<Rightarrow> nat \<Rightarrow> uint8_t list \<times> nat \<times> FILE" where
  "fread f sz count =
     (let want = sz * count;
          got = min want (length (contents f) - pos f);
          items = got div sz
      in (take (items * sz) (drop (pos f) (contents f)), items,
          f\<lparr> pos := pos f + got, eof := eof f \<or> got < want \<rparr>))"

text \<open>\<^verbatim>\<open>fwrite\<close> of a byte sequence at the current position.\<close>

definition fwrite :: "FILE \<Rightarrow> uint8_t list \<Rightarrow> FILE" where
  "fwrite f bs =
     f\<lparr> contents := take (pos f) (contents f) @ bs @ drop (pos f + length bs) (contents f),
        pos := pos f + length bs \<rparr>"

definition fseek_set :: "FILE \<Rightarrow> nat \<Rightarrow> FILE" where
  "fseek_set f off = f\<lparr> pos := off, eof := False \<rparr>"

text \<open>Sixteen-bit samples in memory and in the file.\<close>

fun samples_of_bytes :: "uint8_t list \<Rightarrow> int16_t list" where
  "samples_of_bytes (a # b # bs) = load16 [a, b] # samples_of_bytes bs"
| "samples_of_bytes _ = []"

definition bytes_of_samples :: "int16_t list \<Rightarrow> uint8_t list" where
  "bytes_of_samples xs = concat (map bytes16 xs)"

section \<open>Stream state\<close>

text \<open>
  Both classes declare \<^verbatim>\<open>sample_rate_\<close>, \<^verbatim>\<open>num_channels_\<close>, \<^verbatim>\<open>num_samples_\<close> and
  \<^verbatim>\<open>file_handle_\<close>; the reader adds \<^verbatim>\<open>num_samples_remaining_\<close>. A member \<^verbatim>\<open>x_\<close> is
  the field \<open>m_x\<close>, and a null \<^verbatim>\<open>file_handle_\<close> is \<open>None\<close>. The constructors take the
  result of \<^verbatim>\<open>fopen\<close>.
\<close>

record WavWriter =
  m_sample_rate :: cint
  m_num_channels :: cint
  m_num_samples :: uint32_t
  m_file_handle :: "FILE option"

record WavReader = WavWriter +
  m_num_samples_remaining :: uint32_t

text \<open>The public accessors.\<close>

definition sample_rate :: "'a WavWriter_scheme \<Rightarrow> cint" where
  "sample_rate s = m_sample_rate s"

definition num_channels :: "'a WavWriter_scheme \<Rightarrow> cint" where
  "num_channels s = m_num_channels s"

definition num_samples :: "'a WavWriter_scheme \<Rightarrow> uint32_t" where
  "num_samples s = m_num_samples s"

section \<open>Stream reader\<close>

text \<open>
  The decoder on a file: \<^verbatim>\<open>ReadableWavFile\<close> presents the bytes from the file's position
  as the source, and the position moves past what the decoder has read.
\<close>

definition ReadWavHeader_file ::
  "FILE \<Rightarrow> ((cint \<times> cint \<times> WavFormat \<times> cint \<times> uint32_t) \<times> FILE) option" where
  "ReadWavHeader_file f =
     (case ReadWavHeader (drop (pos f) (contents f)) of
        None \<Rightarrow> None
      | Some (t, rest) \<Rightarrow> Some (t, f\<lparr> pos := length (contents f) - length rest \<rparr>))"

definition WavReader_new :: "FILE option \<Rightarrow> error + WavReader" where
  "WavReader_new fh =
     (case fh of
        None \<Rightarrow> Inl AssertionFailed
      | Some f \<Rightarrow>
          (case ReadWavHeader_file f of
             None \<Rightarrow> Inl AssertionFailed
           | Some ((nc, sr, format, bytes_per_sample, ns), f') \<Rightarrow>
               if kWavFormat \<noteq> format then Inl AssertionFailed
               else if kBytesPerSample \<noteq> bytes_per_sample then Inl AssertionFailed
               else Inr \<lparr> m_sample_rate = sr, m_num_channels = nc, m_num_samples = ns,
                          m_file_handle = Some f', m_num_samples_remaining = ns \<rparr>))"

text \<open>
  \<^verbatim>\<open>ReadSamples(size_t, int16_t*)\<close>: the number returned, the samples stored in the
  caller's buffer, and the reader afterwards.
\<close>

definition ReadSamples ::
  "WavReader \<Rightarrow> size_t \<Rightarrow> error + (size_t \<times> int16_t list \<times> WavReader)" where
  "ReadSamples r num_samples0 =
     (let num_samples1 =
            (ucast (min (ucast num_samples0 :: uint32_t) (m_num_samples_remaining r)) :: size_t)
      in case m_file_handle r of
           None \<Rightarrow> Inl UndefinedBehaviour
         | Some f \<Rightarrow>
             (case fread f 2 (unat num_samples1) of
                (bs, n, f') \<Rightarrow>
                  let read = (of_nat n :: size_t) in
                  if \<not> (read = num_samples1 \<or> eof f') then Inl AssertionFailed
                  else if \<not> (read \<le> ucast (m_num_samples_remaining r)) then Inl AssertionFailed
                  else Inr (read, samples_of_bytes bs,
                            r\<lparr> m_num_samples_remaining := m_num_samples_remaining r - ucast read,
                               m_file_handle := Some f' \<rparr>)))"

text \<open>\<^verbatim>\<open>kChunksize = 4096 / sizeof(uint16_t)\<close>, in both classes.\<close>

definition kChunksize :: nat where "kChunksize = 4096 div 2"

text \<open>
  \<^verbatim>\<open>ReadSamples(size_t, float*)\<close>. The inner loop stores the samples read at the
  indices from \<open>i\<close> on in the caller's buffer, converted from \<^verbatim>\<open>int16_t\<close>; a store
  outside the buffer is undefined. The outer loop advances \<open>i\<close> by \<open>kChunksize\<close> in
  \<^verbatim>\<open>size_t\<close>, where the sum can wrap, so the loop need not end: the function is
  partial, \<open>None\<close> when it does not return.
\<close>

fun store_samples :: "float list \<Rightarrow> nat \<Rightarrow> int16_t list \<Rightarrow> float list option" where
  "store_samples samples k [] = Some samples"
| "store_samples samples k (x # xs) =
     (if k < length samples
      then store_samples (samples[k := f32_of_int (sint x)]) (Suc k) xs
      else None)"

partial_function (option) ReadSamples_float_loop ::
  "size_t \<Rightarrow> WavReader \<Rightarrow> float list \<Rightarrow> size_t \<Rightarrow> size_t
     \<Rightarrow> (error + (size_t \<times> float list \<times> WavReader)) option" where
  "ReadSamples_float_loop num_samples0 r samples i read =
     (if i < num_samples0
      then
        (case ReadSamples r (min (of_nat kChunksize) (num_samples0 - i)) of
           Inl e \<Rightarrow> Some (Inl e)
         | Inr (chunk, isamples, r') \<Rightarrow>
             (case store_samples samples (unat i) isamples of
                None \<Rightarrow> Some (Inl UndefinedBehaviour)
              | Some samples' \<Rightarrow>
                  ReadSamples_float_loop num_samples0 r' samples'
                    (i + of_nat kChunksize) (read + chunk)))
      else Some (Inr (read, samples, r)))"

definition ReadSamples_float ::
  "WavReader \<Rightarrow> size_t \<Rightarrow> float list
     \<Rightarrow> (error + (size_t \<times> float list \<times> WavReader)) option" where
  "ReadSamples_float r num_samples0 samples = ReadSamples_float_loop num_samples0 r samples 0 0"

definition WavReader_Close :: "WavReader \<Rightarrow> error + WavReader" where
  "WavReader_Close r =
     (case m_file_handle r of
        None \<Rightarrow> Inl UndefinedBehaviour
      | Some f \<Rightarrow> Inr (r\<lparr> m_file_handle := None \<rparr>))"

section \<open>Stream writer\<close>

definition WavWriter_new :: "FILE option \<Rightarrow> cint \<Rightarrow> cint \<Rightarrow> error + WavWriter" where
  "WavWriter_new fh sr nc =
     (case fh of
        None \<Rightarrow> Inl AssertionFailed
      | Some f \<Rightarrow>
          if \<not> CheckWavParameters nc sr kWavFormat kBytesPerSample 0 then Inl AssertionFailed
          else Inr \<lparr> m_sample_rate = sr, m_num_channels = nc, m_num_samples = 0,
                     m_file_handle = Some (fwrite f (replicate (unat kWavHeaderSize) 0)) \<rparr>)"

text \<open>
  \<^verbatim>\<open>WriteSamples(const int16_t*, size_t)\<close>; the buffer holds \<open>num_samples\<close> samples, so
  the argument is the list and \<open>num_samples\<close> its length. The three assertions follow
  the update of the counter, as in the source.
\<close>

definition WriteSamples :: "WavWriter \<Rightarrow> int16_t list \<Rightarrow> error + WavWriter" where
  "WriteSamples w samples =
     (case m_file_handle w of
        None \<Rightarrow> Inl UndefinedBehaviour
      | Some f \<Rightarrow>
          let num_samples0 = (of_nat (length samples) :: size_t);
              f' = fwrite f (bytes_of_samples samples);
              written = num_samples0;
              ns = m_num_samples w + (ucast written :: uint32_t)
          in if \<not> (num_samples0 = written) then Inl AssertionFailed
             else if \<not> (written \<le> ucast UINT32_MAX \<or> written \<le> ucast ns)
             then Inl AssertionFailed
             else if \<not> CheckWavParameters (m_num_channels w) (m_sample_rate w)
                         kWavFormat kBytesPerSample ns
             then Inl AssertionFailed
             else Inr (w\<lparr> m_num_samples := ns, m_file_handle := Some f' \<rparr>))"

text \<open>
  \<^verbatim>\<open>WriteSamples(const float*, size_t)\<close>: the loop over chunks of \<open>kChunksize\<close>
  samples, \<open>i\<close> the loop index. The index stays below the length of the buffer, which
  is in memory, so it does not wrap.
\<close>

function WriteSamples_float_loop :: "WavWriter \<Rightarrow> float list \<Rightarrow> nat \<Rightarrow> error + WavWriter" where
  "WriteSamples_float_loop w samples i =
     (if i < length samples
      then
        let chunk = min kChunksize (length samples - i) in
        case FloatS16ToS16_array (take chunk (drop i samples)) of
          None \<Rightarrow> Inl UndefinedBehaviour
        | Some isamples \<Rightarrow>
            (case WriteSamples w isamples of
               Inl e \<Rightarrow> Inl e
             | Inr w' \<Rightarrow> WriteSamples_float_loop w' samples (i + kChunksize))
      else Inr w)"
  by pat_completeness auto
termination
  by (relation "measure (\<lambda>(w, samples, i). length samples - i)") (auto simp: kChunksize_def)

declare WriteSamples_float_loop.simps [simp del]

definition WriteSamples_float :: "WavWriter \<Rightarrow> float list \<Rightarrow> error + WavWriter" where
  "WriteSamples_float w samples = WriteSamples_float_loop w samples 0"

text \<open>\<^verbatim>\<open>Close\<close>: the header over the placeholder; the result is the file left on disk.\<close>

definition WavWriter_Close :: "WavWriter \<Rightarrow> error + (WavWriter \<times> FILE)" where
  "WavWriter_Close w =
     (case m_file_handle w of
        None \<Rightarrow> Inl UndefinedBehaviour
      | Some f \<Rightarrow>
          (case WriteWavHeader (m_num_channels w) (m_sample_rate w) kWavFormat kBytesPerSample
                  (m_num_samples w) of
             Inl e \<Rightarrow> Inl e
           | Inr header \<Rightarrow> Inr (w\<lparr> m_file_handle := None \<rparr>, fwrite (fseek_set f 0) header)))"

section \<open>Clients and example data\<close>

text \<open>
  A client that calls \<^verbatim>\<open>ReadSamples\<close> once for each requested count in turn; the
  result is the sum of the counts returned and the reader after the last call.
\<close>

fun ReadSamples_seq :: "WavReader \<Rightarrow> size_t list \<Rightarrow> error + (nat \<times> WavReader)" where
  "ReadSamples_seq r [] = Inr (0, r)"
| "ReadSamples_seq r (n # ns) =
     (case ReadSamples r n of
        Inl e \<Rightarrow> Inl e
      | Inr (k, xs, r') \<Rightarrow>
          (case ReadSamples_seq r' ns of
             Inl e \<Rightarrow> Inl e
           | Inr (t, r'') \<Rightarrow> Inr (unat k + t, r'')))"

text \<open>
  A file of one channel at 8000 Hz whose data chunk declares eight bytes (the samples
  1, -1, 100, -100), followed by five bytes that belong to no chunk.
\<close>

definition wav_file_4 :: "uint8_t list" where
  "wav_file_4 =
     [82, 73, 70, 70, 44, 0, 0, 0, 87, 65, 86, 69, 102, 109, 116, 32, 16, 0, 0, 0,
      1, 0, 1, 0, 64, 31, 0, 0, 128, 62, 0, 0, 2, 0, 16, 0, 100, 97, 116, 97, 8, 0, 0, 0,
      1, 0, 255, 255, 100, 0, 156, 255,
      1, 2, 3, 4, 5]"

definition reader_4 :: "nat \<Rightarrow> uint32_t \<Rightarrow> WavReader" where
  "reader_4 p remaining =
     \<lparr> m_sample_rate = 8000, m_num_channels = 1, m_num_samples = 4,
       m_file_handle = Some \<lparr> contents = wav_file_4, pos = p, eof = False \<rparr>,
       m_num_samples_remaining = remaining \<rparr>"

text \<open>
  A header of 40000 channels with two bytes per sample: the block-align field holds
  14464.
\<close>

definition header_40000_channels :: "uint8_t list" where
  "header_40000_channels =
     [82, 73, 70, 70, 36, 0, 0, 0, 87, 65, 86, 69, 102, 109, 116, 32, 16, 0, 0, 0,
      1, 0, 64, 156, 64, 31, 0, 0, 0, 160, 37, 38, 128, 56, 16, 0,
      100, 97, 116, 97, 0, 0, 0, 0]"

text \<open>
  The header of the tuple (2, 44100, PCM, 2, 200) with another value in the
  bits-per-sample field.
\<close>

definition header_with_bits :: "uint16_t \<Rightarrow> uint8_t list" where
  "header_with_bits b =
     header_bytes ((WriteWavHeader_struct 2 44100 kWavFormatPcm 2 200)\<lparr> fmt_BitsPerSample := b \<rparr>)"

text \<open>
  A writer for three channels at 8000 Hz as the constructor leaves it, and a writer for
  one channel after two samples have been written.
\<close>

definition writer_3 :: WavWriter where
  "writer_3 = \<lparr> m_sample_rate = 8000, m_num_channels = 3, m_num_samples = 0,
                m_file_handle = Some \<lparr> contents = replicate 44 0, pos = 44, eof = False \<rparr> \<rparr>"

definition writer_1 :: WavWriter where
  "writer_1 = \<lparr> m_sample_rate = 8000, m_num_channels = 1, m_num_samples = 2,
                m_file_handle =
                  Some \<lparr> contents = replicate 44 0 @ [0, 0, 0, 0], pos = 48, eof = False \<rparr> \<rparr>"

text \<open>What no read changes, and the direction in which the remaining counter moves.\<close>

definition reader_unchanged :: "WavReader \<Rightarrow> WavReader \<Rightarrow> bool" where
  "reader_unchanged r r' \<longleftrightarrow>
     m_num_samples r' = m_num_samples r \<and> m_sample_rate r' = m_sample_rate r \<and>
     m_num_channels r' = m_num_channels r \<and>
     m_num_samples_remaining r' \<le> m_num_samples_remaining r"

section \<open>Evaluation lemmas\<close>

lemmas const_defs =
  kWavFormatPcm_def kWavFormatALaw_def kWavFormatMuLaw_def UINT32_MAX_def UINT16_MAX_def
  kWavHeaderSize_def sizeof_ChunkHeader_def sizeof_FmtSubchunk_def kFmtSubchunkSize_def
  kWavFormat_def kBytesPerSample_def

lemmas codec_defs =
  WriteWavHeader_def CheckWavParameters_def WriteWavHeader_struct_def header_bytes_def
  bytes32_def bytes16_def WriteFourCC_def RiffChunkSize_def ByteRate_def BlockAlign_def
  ReadWavHeader_def Read_def header_of_bytes_def int_div_def

lemma char_of_unat_eq: "char_of (unat (b :: 8 word)) = c \<longleftrightarrow> b = of_char c"
proof
  assume "char_of (unat b) = c"
  then have "of_char (char_of (unat b)) = (of_char c :: nat)" by simp
  then have "unat b mod 256 = of_char c" by simp
  moreover have "unat b < 256" using unsigned_less [of b, where 'a = nat] by simp
  ultimately have "unat b = of_char c" by simp
  then have "(of_nat (unat b) :: 8 word) = of_nat (of_char c)" by simp
  then show "b = of_char c" by (simp add: of_nat_of_char)
next
  assume "b = of_char c"
  then have "unat b = unat (of_nat (of_char c) :: 8 word)" by (simp add: of_nat_of_char)
  also have "\<dots> = of_char c" by (simp add: unat_of_nat)
  finally show "char_of (unat b) = c" by simp
qed

lemma ReadFourCC_eq:
  "ReadFourCC x = [a, b, c, d] \<longleftrightarrow> bytes32 x = [of_char a, of_char b, of_char c, of_char d]"
  by (auto simp add: ReadFourCC_def bytes32_def char_of_unat_eq)

section \<open>Header round trip\<close>

text \<open>
  C1. Encoding the tuple (channels 2, sample rate 44100, PCM, 2 bytes per sample,
  200 samples) with \<^verbatim>\<open>WriteWavHeader\<close> succeeds and gives 44 bytes, and
  \<^verbatim>\<open>ReadWavHeader\<close> on these bytes succeeds, returns the same five values and leaves
  nothing of the source unread.
\<close>

theorem header_round_trip_44100_stereo:
  "(case WriteWavHeader 2 44100 kWavFormatPcm 2 200 of
      Inl e \<Rightarrow> False
    | Inr buf \<Rightarrow>
        length buf = 44 \<and>
        ReadWavHeader buf = Some ((2, 44100, kWavFormatPcm, 2, 200), []))"
  by (simp add: const_defs codec_defs ReadFourCC_eq)

section \<open>The validator at the limit of the sample count\<close>

lemma CheckWavParameters_bytes_per_sample:
  "CheckWavParameters c r f b n \<Longrightarrow> b = 1 \<or> b = 2"
  unfolding CheckWavParameters_def by (auto split: if_splits)

text \<open>
  C2. Let the validator accept channels, sample rate, format and bytes per sample
  together with some sample count. Then with the sample count
  \<open>(UINT32_MAX - 36) div bytes_per_sample\<close> (unsigned division) it returns true
  whenever that count is a multiple of the channel count, and with that count plus one
  it returns false.
\<close>

theorem CheckWavParameters_boundary:
  assumes "CheckWavParameters c r f b n"
  shows "((UINT32_MAX - 36) div b mod c = 0 \<longrightarrow>
            CheckWavParameters c r f b ((UINT32_MAX - 36) div b)) \<and>
         \<not> CheckWavParameters c r f b ((UINT32_MAX - 36) div b + 1)"
proof -
  from assms have "b = 1 \<or> b = 2"
    by (rule CheckWavParameters_bytes_per_sample)
  then show ?thesis
  proof
    assume "b = 1"
    with assms show ?thesis
      unfolding CheckWavParameters_def Let_def
      by (auto simp add: const_defs split: if_splits)
  next
    assume "b = 2"
    with assms show ?thesis
      unfolding CheckWavParameters_def Let_def
      by (auto simp add: const_defs split: if_splits)
  qed
qed

theorem CheckWavParameters_boundary_witness:
  "CheckWavParameters 1 8000 kWavFormatPcm 2 0 \<and>
   (UINT32_MAX - 36) div 2 = (2147483629 :: uint32_t) \<and>
   (2147483629 :: uint32_t) mod 1 = 0 \<and>
   CheckWavParameters 1 8000 kWavFormatPcm 2 2147483629 \<and>
   \<not> CheckWavParameters 1 8000 kWavFormatPcm 2 2147483630"
proof -
  have acc: "CheckWavParameters 1 8000 kWavFormatPcm 2 0"
    by (simp add: CheckWavParameters_def const_defs)
  have m: "(UINT32_MAX - 36) div 2 = (2147483629 :: uint32_t)"
    by (simp add: UINT32_MAX_def)
  from CheckWavParameters_boundary [OF acc] acc m show ?thesis
    by simp
qed

section \<open>Bytes and fields\<close>

lemma load16_bytes16: "load16 (bytes16 x @ bs) = x"
  unfolding bytes16_def
  by (simp, rule bit_word_eqI) (auto simp add: bit_simps)

lemma load32_bytes32: "load32 (bytes32 x @ bs) = x"
proof -
  have "ucast (ucast x :: 8 word) OR push_bit 8 (ucast (ucast (drop_bit 8 x) :: 8 word)) OR
        push_bit 16 (ucast (ucast (drop_bit 16 x) :: 8 word)) OR
        push_bit 24 (ucast (ucast (drop_bit 24 x) :: 8 word)) = x"
  proof (rule bit_word_eqI)
    fix n
    assume "n < LENGTH(32)"
    then have "n < 8 \<or> (8 \<le> n \<and> n < 16) \<or> (16 \<le> n \<and> n < 24) \<or> (24 \<le> n \<and> n < 32)"
      by auto
    then show "bit (ucast (ucast x :: 8 word) OR
                    push_bit 8 (ucast (ucast (drop_bit 8 x) :: 8 word)) OR
                    push_bit 16 (ucast (ucast (drop_bit 16 x) :: 8 word)) OR
                    push_bit 24 (ucast (ucast (drop_bit 24 x) :: 8 word)) :: 32 word) n
               = bit x n"
      by (auto simp add: bit_simps)
  qed
  then show ?thesis by (simp add: bytes32_def)
qed

lemma length_bytes16: "length (bytes16 x) = 2"
  by (simp add: bytes16_def)

lemma length_bytes32: "length (bytes32 x) = 4"
  by (simp add: bytes32_def)

lemma length_header_bytes: "length (header_bytes h) = 44"
  by (simp add: header_bytes_def length_bytes16 length_bytes32)

lemma header_of_bytes_header_bytes: "header_of_bytes (header_bytes h @ bs) = h"
  unfolding header_of_bytes_def header_bytes_def
  by (simp add: length_bytes16 length_bytes32 load16_bytes16 load32_bytes32)

lemma load32_append: "4 \<le> length xs \<Longrightarrow> load32 (xs @ ys) = load32 xs"
  by (cases xs rule: load32.cases) simp_all

section \<open>Signed and unsigned readings of a positive int\<close>

lemma pos_uint:
  assumes "0 < sint (x :: cint)"
  shows "uint x = sint x"
proof -
  have "sint x < 2 ^ 31" using sint_less [of x] by simp
  then have "sint x < 2 ^ 32" by simp
  with assms show ?thesis by (simp add: uint_sint take_bit_int_eq_self)
qed

lemma pos_lt:
  assumes "0 < sint (x :: cint)"
  shows "unat x < 2147483648"
proof -
  have "sint x < 2147483648" using sint_less [of x] by simp
  then have "uint x < 2147483648" using pos_uint [OF assms] by simp
  moreover have "int (unat x) = uint x" by simp
  ultimately have "int (unat x) < 2147483648" by (simp only:)
  then show ?thesis by linarith
qed

lemma pos_scast:
  assumes "0 < sint (x :: cint)"
  shows "unat (scast x :: uint64_t) = unat x"
proof -
  have u: "uint x = sint x" using assms by (rule pos_uint)
  have "(scast x :: uint64_t) = word_of_int (sint x)" by simp
  also have "\<dots> = word_of_int (uint x)" by (simp add: u)
  finally have "(scast x :: uint64_t) = ucast x" by simp
  moreover have "unat x < 2 ^ 64"
    using pos_lt [OF assms] by simp
  ultimately show ?thesis by (simp add: unsigned_ucast_eq take_bit_eq_mod)
qed

section \<open>The derived fields of an encoded header\<close>

text \<open>What the validator guarantees about the channel count and the sample width.\<close>

lemma CheckWavParameters_bounds:
  assumes "CheckWavParameters c r f b n"
  shows "0 < unat c" and "unat c \<le> 65535" and "unat b = 1 \<or> unat b = 2"
    and "unat r * unat c * unat b < 2 ^ 32"
proof -
  from assms have pos: "0 < sint c" "0 < sint r" "0 < sint b"
    and cle: "\<not> (scast c :: uint64_t) > ucast UINT16_MAX"
    and ple: "\<not> (scast r :: uint64_t) * scast c * scast b > ucast UINT32_MAX"
    and b12: "b = 1 \<or> b = 2"
    unfolding CheckWavParameters_def by (auto split: if_splits)
  show uc: "unat c \<le> 65535"
    using cle by (simp add: word_less_nat_alt pos_scast [OF pos(1)] UINT16_MAX_def)
  show ub: "unat b = 1 \<or> unat b = 2" using b12 by auto
  have "c \<noteq> 0" using pos(1) by auto
  then show "0 < unat c" by (simp add: unat_gt_0)
  have ur: "unat r < 2147483648" using pos(2) by (rule pos_lt)
  have "unat r * unat c \<le> 2147483648 * 65535"
    using uc ur by (intro mult_mono) simp_all
  then have rc: "unat r * unat c < 2 ^ 64" by simp
  have "unat b \<le> 2" using ub by auto
  then have "unat r * unat c * unat b \<le> 2147483648 * 65535 * 2"
    using uc ur by (intro mult_mono) simp_all
  then have rcb: "unat r * unat c * unat b < 2 ^ 64" by simp
  have m1: "unat ((scast r :: uint64_t) * scast c) = unat r * unat c"
    using rc by (simp add: unat_mult_lem [THEN iffD1] pos_scast pos)
  have m2: "unat ((scast r :: uint64_t) * scast c * scast b) = unat r * unat c * unat b"
    using rcb m1 unat_mult_lem [of "(scast r :: uint64_t) * scast c" "scast b", THEN iffD1]
    by (simp add: pos_scast pos)
  show "unat r * unat c * unat b < 2 ^ 32"
    using ple by (simp add: word_less_nat_alt m2 UINT32_MAX_def)
qed

text \<open>The byte rate of an accepted tuple is the exact product.\<close>

lemma ByteRate_exact:
  assumes "CheckWavParameters c r f b n"
  shows "unat (ByteRate c r b) = unat c * unat r * unat b"
proof -
  note bd = CheckWavParameters_bounds [OF assms]
  from bd(3,4) have cr: "unat c * unat r < 2 ^ 32"
    by (auto simp add: mult.commute)
  have "unat (c * r) = unat c * unat r"
    using cr by (simp add: unat_mult_lem [THEN iffD1])
  moreover have "unat (c * r) * unat b < 2 ^ 32"
    using bd(4) calculation by (simp add: mult.commute)
  ultimately show ?thesis
    unfolding ByteRate_def using unat_mult_lem [of "c * r" b, THEN iffD1] by simp
qed

text \<open>The block align of an accepted tuple is the product reduced modulo \<open>2 ^ 16\<close>.\<close>

lemma BlockAlign_mod:
  assumes "CheckWavParameters c r f b n"
  shows "unat (BlockAlign c b) = (unat c * unat b) mod 65536"
proof -
  note bd = CheckWavParameters_bounds [OF assms]
  have "unat c * unat b \<le> 65535 * 2"
    using bd(2,3) by (intro mult_mono) auto
  then have "unat c * unat b < 2 ^ 32" by simp
  then have "unat (c * b) = unat c * unat b"
    by (simp add: unat_mult_lem [THEN iffD1])
  then show ?thesis
    by (simp add: BlockAlign_def unsigned_ucast_eq take_bit_eq_mod)
qed

lemma WriteWavHeader_fields:
  assumes "CheckWavParameters c r f b n"
  shows "\<exists>buf. WriteWavHeader c r f b n = Inr buf \<and> length buf = 44 \<and>
           unat (fmt_ByteRate (header_of_bytes buf)) = unat c * unat r * unat b \<and>
           unat (fmt_BlockAlign (header_of_bytes buf)) = (unat c * unat b) mod 65536"
proof -
  let ?h = "WriteWavHeader_struct c r f b n"
  have "WriteWavHeader c r f b n = Inr (header_bytes ?h)"
    using assms by (simp add: WriteWavHeader_def)
  moreover have "header_of_bytes (header_bytes ?h) = ?h"
    using header_of_bytes_header_bytes [of ?h "[]"] by simp
  moreover have "fmt_ByteRate ?h = ByteRate c r b" and "fmt_BlockAlign ?h = BlockAlign c b"
    by (simp_all add: WriteWavHeader_struct_def Let_def)
  ultimately show ?thesis
    using ByteRate_exact [OF assms] BlockAlign_mod [OF assms]
    by (simp add: length_header_bytes)
qed

text \<open>
  C3. The claim is that for every tuple the validator accepts the encoded header holds
  the exact products as byte rate and block align, also when channels times bytes per
  sample exceeds sixteen bits. The byte rate is exact (\<open>WriteWavHeader_fields\<close>). The
  block align is not: the validator accepts 40000 channels at 8000 Hz with two bytes
  per sample, and the header then stores 14464 in the block-align field, while
  channels times bytes per sample is 80000.
\<close>

theorem WriteWavHeader_block_align_overflow:
  "CheckWavParameters 40000 8000 kWavFormatPcm 2 0 \<and>
   (case WriteWavHeader 40000 8000 kWavFormatPcm 2 0 of
      Inl e \<Rightarrow> False
    | Inr buf \<Rightarrow>
        unat (fmt_NumChannels (header_of_bytes buf)) = 40000 \<and>
        unat (fmt_BitsPerSample (header_of_bytes buf)) = 8 * 2 \<and>
        unat (fmt_ByteRate (header_of_bytes buf)) = 40000 * 8000 * 2 \<and>
        unat (fmt_BlockAlign (header_of_bytes buf)) = 14464 \<and>
        (14464 :: nat) \<noteq> 40000 * 2)"
  by (simp add: const_defs codec_defs)

section \<open>Decoding a 44-byte buffer\<close>

lemma ReadWavHeader_36_8:
  assumes "length b1 = 36" and "length b2 = 8"
  shows "ReadWavHeader (b1 @ b2) =
     (let header = header_of_bytes (b1 @ b2);
          format = (ucast (fmt_AudioFormat header) :: WavFormat);
          num_channels = (ucast (fmt_NumChannels header) :: cint);
          sample_rate = (fmt_SampleRate header :: cint);
          bytes_per_sample = int_div (ucast (fmt_BitsPerSample header)) 8;
          bytes_in_payload = data_Size header
      in if fmt_Size header \<noteq> kFmtSubchunkSize then None
         else if sint bytes_per_sample \<le> 0 then None
         else if ReadFourCC (riff_ID header) \<noteq> ''RIFF'' then None
         else if ReadFourCC (riff_Format header) \<noteq> ''WAVE'' then None
         else if ReadFourCC (fmt_ID header) \<noteq> ''fmt '' then None
         else if ReadFourCC (data_ID header) \<noteq> ''data'' then None
         else if riff_Size header < RiffChunkSize bytes_in_payload then None
         else if fmt_ByteRate header \<noteq> ByteRate num_channels sample_rate bytes_per_sample
         then None
         else if fmt_BlockAlign header \<noteq> BlockAlign num_channels bytes_per_sample then None
         else if CheckWavParameters num_channels sample_rate format bytes_per_sample
                   (bytes_in_payload div bytes_per_sample)
         then Some ((num_channels, sample_rate, format, bytes_per_sample,
                     bytes_in_payload div bytes_per_sample), [])
         else None)"
proof -
  have fs: "fmt_Size (header_of_bytes b1) = fmt_Size (header_of_bytes (b1 @ b2))"
    using assms by (simp add: header_of_bytes_def load32_append)
  show ?thesis
    unfolding ReadWavHeader_def Read_def
    using assms by (simp add: fs Let_def)
qed

lemma ReadWavHeader_44:
  assumes "length buf = 44"
  shows "ReadWavHeader buf =
     (let header = header_of_bytes buf;
          format = (ucast (fmt_AudioFormat header) :: WavFormat);
          num_channels = (ucast (fmt_NumChannels header) :: cint);
          sample_rate = (fmt_SampleRate header :: cint);
          bytes_per_sample = int_div (ucast (fmt_BitsPerSample header)) 8;
          bytes_in_payload = data_Size header
      in if fmt_Size header \<noteq> kFmtSubchunkSize then None
         else if sint bytes_per_sample \<le> 0 then None
         else if ReadFourCC (riff_ID header) \<noteq> ''RIFF'' then None
         else if ReadFourCC (riff_Format header) \<noteq> ''WAVE'' then None
         else if ReadFourCC (fmt_ID header) \<noteq> ''fmt '' then None
         else if ReadFourCC (data_ID header) \<noteq> ''data'' then None
         else if riff_Size header < RiffChunkSize bytes_in_payload then None
         else if fmt_ByteRate header \<noteq> ByteRate num_channels sample_rate bytes_per_sample
         then None
         else if fmt_BlockAlign header \<noteq> BlockAlign num_channels bytes_per_sample then None
         else if CheckWavParameters num_channels sample_rate format bytes_per_sample
                   (bytes_in_payload div bytes_per_sample)
         then Some ((num_channels, sample_rate, format, bytes_per_sample,
                     bytes_in_payload div bytes_per_sample), [])
         else None)"
proof -
  have "length (take 36 buf) = 36" and "length (drop 36 buf) = 8"
    using assms by simp_all
  from ReadWavHeader_36_8 [OF this] show ?thesis by simp
qed

text \<open>
  A 44-byte buffer whose block-align field differs from what \<^verbatim>\<open>BlockAlign\<close> computes
  from the decoded channel count and sample width is rejected.
\<close>

lemma ReadWavHeader_BlockAlign_mismatch:
  assumes "length buf = 44"
    and "fmt_BlockAlign (header_of_bytes buf) \<noteq>
           BlockAlign (ucast (fmt_NumChannels (header_of_bytes buf)))
             (int_div (ucast (fmt_BitsPerSample (header_of_bytes buf))) 8)"
  shows "ReadWavHeader buf = None"
  using assms(2) by (simp add: ReadWavHeader_44 [OF assms(1)] Let_def)

text \<open>
  C4. The claim is that every 44-byte buffer whose stored block align differs from
  channels times bytes per sample (both decoded from the buffer) is rejected. The
  decoder compares the field with the product narrowed to sixteen bits, so the buffer
  \<open>header_40000_channels\<close> is accepted: it declares 40000 channels and 16 bits per
  sample, stores 14464 as block align, and 40000 times 2 is 80000.
\<close>

theorem ReadWavHeader_accepts_wrapped_block_align:
  "length header_40000_channels = 44 \<and>
   unat (fmt_NumChannels (header_of_bytes header_40000_channels)) = 40000 \<and>
   unat (fmt_BitsPerSample (header_of_bytes header_40000_channels)) = 16 \<and>
   unat (fmt_BlockAlign (header_of_bytes header_40000_channels)) = 14464 \<and>
   (14464 :: nat) \<noteq> 40000 * 2 \<and>
   ReadWavHeader header_40000_channels = Some ((40000, 8000, kWavFormatPcm, 2, 0), [])"
  by (simp add: header_40000_channels_def const_defs codec_defs ReadFourCC_eq)

section \<open>Round trip of every accepted tuple\<close>

lemma ucast_16_id:
  assumes "unat (c :: cint) \<le> 65535"
  shows "(ucast (ucast c :: uint16_t) :: cint) = c"
proof -
  have "unat (ucast (ucast c :: uint16_t) :: cint) = unat c"
    using assms by (simp add: unsigned_ucast_eq take_bit_eq_mod unat_mod)
  then show ?thesis by (rule word_unat_eq_iff [THEN iffD2])
qed

lemma CheckWavParameters_format:
  "CheckWavParameters c r f b n \<Longrightarrow> f = 1 \<or> f = 6 \<or> f = 7"
  unfolding CheckWavParameters_def by (auto simp add: const_defs split: if_splits)

lemma CheckWavParameters_count:
  assumes "CheckWavParameters c r f b n"
  shows "unat b * unat n < 2 ^ 32"
proof -
  from assms have b: "b = 1 \<or> b = 2"
    by (rule CheckWavParameters_bytes_per_sample)
  from assms have "\<not> n > (ucast (((ucast UINT32_MAX :: size_t)
                             - (kWavHeaderSize - sizeof_ChunkHeader))
                            div (scast b :: size_t)) :: uint32_t)"
    unfolding CheckWavParameters_def Let_def by (auto split: if_splits)
  with b show ?thesis
    by (auto simp add: const_defs word_less_nat_alt)
qed

lemma payload_div:
  assumes "CheckWavParameters c r f b n"
  shows "(b * n) div b = n"
proof -
  from assms have b: "b = 1 \<or> b = 2"
    by (rule CheckWavParameters_bytes_per_sample)
  have m: "unat (b * n) = unat b * unat n"
    using CheckWavParameters_count [OF assms] by (simp add: unat_mult_lem [THEN iffD1])
  have "unat ((b * n) div b) = unat n"
    using b by (auto simp add: unat_div m)
  then show ?thesis by (rule word_unat_eq_iff [THEN iffD2])
qed

text \<open>
  Every tuple the validator accepts is encoded into 44 bytes from which the decoder
  returns the same tuple.
\<close>

lemma header_round_trip:
  assumes "CheckWavParameters c r f b n"
  shows "\<exists>buf. WriteWavHeader c r f b n = Inr buf \<and> length buf = 44 \<and>
           ReadWavHeader buf = Some ((c, r, f, b, n), [])"
proof -
  let ?h = "WriteWavHeader_struct c r f b n"
  have w: "WriteWavHeader c r f b n = Inr (header_bytes ?h)"
    using assms by (simp add: WriteWavHeader_def)
  have hb: "header_of_bytes (header_bytes ?h) = ?h"
    using header_of_bytes_header_bytes [of ?h "[]"] by simp
  note bd = CheckWavParameters_bounds [OF assms]
  have ch: "(ucast (ucast c :: uint16_t) :: cint) = c"
    using bd(2) by (rule ucast_16_id)
  have fo: "(ucast (ucast f :: uint16_t) :: WavFormat) = f"
    using CheckWavParameters_format [OF assms] by auto
  from assms have b: "b = 1 \<or> b = 2"
    by (rule CheckWavParameters_bytes_per_sample)
  then have bp: "int_div (ucast (ucast (8 * b) :: uint16_t)) 8 = b" "\<not> sint b \<le> 0"
    by (auto simp add: int_div_def)
  have tags: "ReadFourCC (WriteFourCC CHR ''R'' CHR ''I'' CHR ''F'' CHR ''F'') = ''RIFF''"
    "ReadFourCC (WriteFourCC CHR ''W'' CHR ''A'' CHR ''V'' CHR ''E'') = ''WAVE''"
    "ReadFourCC (WriteFourCC CHR ''f'' CHR ''m'' CHR ''t'' CHR '' '') = ''fmt ''"
    "ReadFourCC (WriteFourCC CHR ''d'' CHR ''a'' CHR ''t'' CHR ''a'') = ''data''"
    by (simp_all add: ReadFourCC_eq WriteFourCC_def bytes32_def)
  have "ReadWavHeader (header_bytes ?h) = Some ((c, r, f, b, n), [])"
    using assms
    by (simp add: ReadWavHeader_44 [OF length_header_bytes] hb Let_def)
       (simp add: WriteWavHeader_struct_def Let_def ch fo bp tags payload_div [OF assms])
  with w show ?thesis by (simp add: length_header_bytes)
qed

section \<open>Bits per sample that are not a multiple of eight\<close>

lemma bits_16_to_23:
  "16 \<le> b \<Longrightarrow> b \<le> 23 \<Longrightarrow> (b :: uint16_t) \<in> {16, 17, 18, 19, 20, 21, 22, 23}"
  by unat_arith

lemma ReadWavHeader_header_with_bits:
  assumes "b \<in> {16, 17, 18, 19, 20, 21, 22, 23}"
  shows "ReadWavHeader (header_with_bits b) = Some ((2, 44100, kWavFormatPcm, 2, 200), [])"
  using assms
  by (auto simp add: header_with_bits_def const_defs codec_defs ReadFourCC_eq)

lemma header_with_bits_inj:
  assumes "header_with_bits b = header_with_bits b'"
  shows "b = b'"
proof -
  have "header_of_bytes (header_with_bits x @ []) =
          (WriteWavHeader_struct 2 44100 kWavFormatPcm 2 200)\<lparr> fmt_BitsPerSample := x \<rparr>" for x
    unfolding header_with_bits_def by (rule header_of_bytes_header_bytes)
  then have f: "fmt_BitsPerSample (header_of_bytes (header_with_bits x)) = x" for x
    by simp
  from assms have "fmt_BitsPerSample (header_of_bytes (header_with_bits b)) =
                   fmt_BitsPerSample (header_of_bytes (header_with_bits b'))"
    by (rule arg_cong)
  then show ?thesis by (simp only: f)
qed

text \<open>
  C9. For every value \<open>b\<close> from 16 to 23 in the bits-per-sample field (17 among them)
  of the header of (2, 44100, PCM, 2, 200), whose byte rate and block align are those
  of two bytes per sample, \<^verbatim>\<open>ReadWavHeader\<close> accepts the header and returns two bytes
  per sample. Encoding the decoded tuple again gives the header with 16 in the field,
  so for \<open>b\<close> other than 16 the header read is not the header written.
\<close>

theorem ReadWavHeader_truncates_bits_per_sample:
  assumes "16 \<le> b" and "b \<le> 23"
  shows "ReadWavHeader (header_with_bits b) = Some ((2, 44100, kWavFormatPcm, 2, 200), []) \<and>
         int_div (ucast b) 8 = 2 \<and>
         WriteWavHeader 2 44100 kWavFormatPcm 2 200 = Inr (header_with_bits 16) \<and>
         (b \<noteq> 16 \<longrightarrow> WriteWavHeader 2 44100 kWavFormatPcm 2 200 \<noteq> Inr (header_with_bits b))"
proof -
  from assms have b: "b \<in> {16, 17, 18, 19, 20, 21, 22, 23}"
    by (rule bits_16_to_23)
  have w: "WriteWavHeader 2 44100 kWavFormatPcm 2 200 = Inr (header_with_bits 16)"
    by (simp add: header_with_bits_def const_defs codec_defs)
  have "int_div (ucast b) 8 = 2"
    using b by (auto simp add: int_div_def)
  moreover have "b \<noteq> 16 \<longrightarrow> header_with_bits 16 \<noteq> header_with_bits b"
    using header_with_bits_inj [of 16 b] by auto
  ultimately show ?thesis
    using ReadWavHeader_header_with_bits [OF b] w by simp
qed

theorem ReadWavHeader_truncates_bits_per_sample_witness:
  "(16 :: uint16_t) \<le> 17 \<and> (17 :: uint16_t) \<le> 23 \<and> (17 :: uint16_t) \<noteq> 16 \<and>
   ReadWavHeader (header_with_bits 17) = Some ((2, 44100, kWavFormatPcm, 2, 200), []) \<and>
   WriteWavHeader 2 44100 kWavFormatPcm 2 200 \<noteq> Inr (header_with_bits 17)"
proof -
  have h: "(16 :: uint16_t) \<le> 17" "(17 :: uint16_t) \<le> 23" "(17 :: uint16_t) \<noteq> 16"
    by simp_all
  from ReadWavHeader_truncates_bits_per_sample [OF h(1,2)] h show ?thesis
    by blast
qed

section \<open>Reading samples\<close>

lemma unat_ucast_32_64: "unat (ucast (x :: uint32_t) :: size_t) = unat x"
proof -
  have "unat x < 2 ^ 32" using unsigned_less [of x, where 'a = nat] by simp
  then have "unat x < 2 ^ 64" by (rule less_trans) simp
  then show ?thesis by (simp add: unsigned_ucast_eq take_bit_eq_mod)
qed

lemma unat_ucast_64_32: "unat (ucast (x :: size_t) :: uint32_t) = unat x mod 2 ^ 32"
  by (simp add: unsigned_ucast_eq take_bit_eq_mod)

lemma unat_clamp:
  "unat (ucast (min (ucast (n :: size_t) :: uint32_t) m) :: size_t) = min (unat n mod 2 ^ 32) (unat m)"
  by (simp add: unat_ucast_32_64 min_def word_le_nat_alt unat_ucast_64_32)

lemma unat_of_nat_64: "k < 2 ^ 32 \<Longrightarrow> unat (of_nat k :: size_t) = k"
  by (simp add: unat_of_nat)

lemma unat_ucast_of_nat_32: "k < 2 ^ 32 \<Longrightarrow> unat (ucast (of_nat k :: size_t) :: uint32_t) = k"
  by (simp add: unat_ucast_64_32 unat_of_nat)

lemma fread_items:
  assumes "fread f 2 c = (bs, n, f')"
  shows "n \<le> c" and "length bs = 2 * n" and "n = c \<or> eof f'" and "pos f' \<le> pos f + 2 * c"
    and "contents f' = contents f"
  using assms by (auto simp add: fread_def Let_def min_def split: if_splits)

lemma length_samples_of_bytes: "length (samples_of_bytes bs) = length bs div 2"
  by (induction bs rule: samples_of_bytes.induct) simp_all

lemma ReadSamples_open:
  assumes "m_file_handle r = Some f"
  shows "\<exists>k xs f'. ReadSamples r n =
            Inr (k, xs, r\<lparr> m_num_samples_remaining := m_num_samples_remaining r - ucast k,
                           m_file_handle := Some f' \<rparr>) \<and>
          length xs = unat k \<and>
          unat k \<le> min (unat n) (unat (m_num_samples_remaining r)) \<and>
          unat (m_num_samples_remaining r - ucast k) = unat (m_num_samples_remaining r) - unat k \<and>
          pos f' \<le> pos f + 2 * min (unat n) (unat (m_num_samples_remaining r)) \<and>
          contents f' = contents f"
proof -
  define c where "c = (ucast (min (ucast n :: uint32_t) (m_num_samples_remaining r)) :: size_t)"
  obtain bs k f' where fr: "fread f 2 (unat c) = (bs, k, f')"
    by (cases "fread f 2 (unat c)") auto
  note it = fread_items [OF fr]
  have c_eq: "unat c = min (unat n mod 2 ^ 32) (unat (m_num_samples_remaining r))"
    unfolding c_def by (rule unat_clamp)
  have rem_lt: "unat (m_num_samples_remaining r) < 2 ^ 32"
    using unsigned_less [of "m_num_samples_remaining r", where 'a = nat] by simp
  have c_le: "unat c \<le> min (unat n) (unat (m_num_samples_remaining r))"
    unfolding c_eq by (simp add: min_def) (metis mod_less_eq_dividend order_trans)
  have k_rem: "k \<le> unat (m_num_samples_remaining r)" using it(1) c_le by simp
  have k_lt: "k < 2 ^ 32" using k_rem rem_lt by simp
  have uk: "unat (of_nat k :: size_t) = k" using k_lt by (rule unat_of_nat_64)
  have uk32: "unat (ucast (of_nat k :: size_t) :: uint32_t) = k"
    using k_lt by (rule unat_ucast_of_nat_32)
  have a1: "(of_nat k :: size_t) = c \<or> eof f'"
    using it(3) by auto
  have a2: "(of_nat k :: size_t) \<le> ucast (m_num_samples_remaining r)"
    by (simp add: word_le_nat_alt uk unat_ucast_32_64 k_rem)
  have sub: "unat (m_num_samples_remaining r - ucast (of_nat k :: size_t))
               = unat (m_num_samples_remaining r) - k"
    by (simp add: unat_sub word_le_nat_alt uk32 k_rem)
  have rs: "ReadSamples r n =
      Inr (of_nat k, samples_of_bytes bs,
           r\<lparr> m_num_samples_remaining := m_num_samples_remaining r - ucast (of_nat k :: size_t),
              m_file_handle := Some f' \<rparr>)"
    using a1 a2 fr assms unfolding ReadSamples_def c_def [symmetric] Let_def
    by auto
  have len: "length (samples_of_bytes bs) = k"
    by (simp add: length_samples_of_bytes it(2))
  have p: "pos f' \<le> pos f + 2 * min (unat n) (unat (m_num_samples_remaining r))"
    using it(4) c_le by (simp add: min_def split: if_splits)
  show ?thesis
    using rs len uk sub p it(1) c_le it(5)
    by (intro exI [of _ "of_nat k"] exI [of _ "samples_of_bytes bs"] exI [of _ f']) simp
qed

lemma ReadSamples_frame:
  assumes "ReadSamples r n = Inr (k, xs, r')"
  shows "m_num_samples r' = m_num_samples r" and "m_sample_rate r' = m_sample_rate r"
    and "m_num_channels r' = m_num_channels r"
  using assms unfolding ReadSamples_def Let_def
  by (auto split: option.splits prod.splits if_splits)

lemma ReadSamples_seq_open:
  assumes "m_file_handle r = Some f"
  shows "\<exists>t r'. ReadSamples_seq r ns = Inr (t, r') \<and>
           t + unat (m_num_samples_remaining r') = unat (m_num_samples_remaining r) \<and>
           m_num_samples r' = m_num_samples r \<and> m_sample_rate r' = m_sample_rate r \<and>
           m_num_channels r' = m_num_channels r"
  using assms
proof (induction ns arbitrary: r f)
  case Nil
  then show ?case by simp
next
  case (Cons n ns)
  from ReadSamples_open [OF Cons.prems, of n]
  obtain k xs f' where
    rs: "ReadSamples r n =
          Inr (k, xs, r\<lparr> m_num_samples_remaining := m_num_samples_remaining r - ucast k,
                        m_file_handle := Some f' \<rparr>)"
    and le: "unat k \<le> min (unat n) (unat (m_num_samples_remaining r))"
    and sub: "unat (m_num_samples_remaining r - ucast k) = unat (m_num_samples_remaining r) - unat k"
    by blast
  let ?r1 = "r\<lparr> m_num_samples_remaining := m_num_samples_remaining r - ucast k,
               m_file_handle := Some f' \<rparr>"
  have "m_file_handle ?r1 = Some f'" by simp
  from Cons.IH [OF this]
  obtain t r' where
    sq: "ReadSamples_seq ?r1 ns = Inr (t, r')"
    and tot: "t + unat (m_num_samples_remaining r') = unat (m_num_samples_remaining ?r1)"
    and fr: "m_num_samples r' = m_num_samples ?r1" "m_sample_rate r' = m_sample_rate ?r1"
            "m_num_channels r' = m_num_channels ?r1"
    by blast
  have "ReadSamples_seq r (n # ns) = Inr (unat k + t, r')"
    by (simp add: rs sq)
  moreover have "unat k + t + unat (m_num_samples_remaining r') = unat (m_num_samples_remaining r)"
  proof -
    have "t + unat (m_num_samples_remaining r') = unat (m_num_samples_remaining r) - unat k"
      using tot sub by simp
    moreover have "unat k \<le> unat (m_num_samples_remaining r)"
      using le by simp
    ultimately show ?thesis by linarith
  qed
  ultimately show ?case using fr by simp
qed

lemma WavReader_new_fields:
  assumes "WavReader_new fh = Inr r0"
  shows "\<exists>f nc sr fmt bps f'. fh = Some f \<and>
           ReadWavHeader_file f = Some ((nc, sr, fmt, bps, m_num_samples r0), f') \<and>
           fmt = kWavFormat \<and> bps = kBytesPerSample \<and>
           m_sample_rate r0 = sr \<and> m_num_channels r0 = nc \<and>
           m_file_handle r0 = Some f' \<and> m_num_samples_remaining r0 = m_num_samples r0"
  using assms unfolding WavReader_new_def
  by (auto split: option.splits if_splits prod.splits)

text \<open>
  C6. On an open reader (\<open>m_file_handle r = Some f\<close>) and for every requested count,
  \<^verbatim>\<open>ReadSamples\<close> returns: the number \<open>k\<close> it returns is the number of samples
  delivered, it is at most the minimum of the requested count and the remaining
  counter, the file position moves by at most two bytes for each of that many samples,
  and the remaining counter decreases by exactly \<open>k\<close>. Consequently, for a reader
  constructed from any file contents, whatever follows the data payload, every
  sequence of reads returns and the counts returned add up to at most the sample count
  that the decoder took from the header.
\<close>

theorem ReadSamples_clamped_to_remaining:
  "(m_file_handle r = Some f \<longrightarrow>
      (\<exists>k xs r' f'. ReadSamples r n = Inr (k, xs, r') \<and> m_file_handle r' = Some f' \<and>
         length xs = unat k \<and>
         unat k \<le> min (unat n) (unat (m_num_samples_remaining r)) \<and>
         pos f' \<le> pos f + 2 * min (unat n) (unat (m_num_samples_remaining r)) \<and>
         unat (m_num_samples_remaining r') = unat (m_num_samples_remaining r) - unat k)) \<and>
   (WavReader_new (Some (fopen_rb bytes)) = Inr r0 \<longrightarrow>
      (\<exists>nc sr fmt bps rest.
         ReadWavHeader bytes = Some ((nc, sr, fmt, bps, num_samples r0), rest)) \<and>
      (\<forall>ns. \<exists>t r'. ReadSamples_seq r0 ns = Inr (t, r') \<and> t \<le> unat (num_samples r0)))"
proof (intro conjI impI)
  assume "m_file_handle r = Some f"
  from ReadSamples_open [OF this, of n]
  show "\<exists>k xs r' f'. ReadSamples r n = Inr (k, xs, r') \<and> m_file_handle r' = Some f' \<and>
         length xs = unat k \<and>
         unat k \<le> min (unat n) (unat (m_num_samples_remaining r)) \<and>
         pos f' \<le> pos f + 2 * min (unat n) (unat (m_num_samples_remaining r)) \<and>
         unat (m_num_samples_remaining r') = unat (m_num_samples_remaining r) - unat k"
    by fastforce
next
  assume new: "WavReader_new (Some (fopen_rb bytes)) = Inr r0"
  from WavReader_new_fields [OF new]
  obtain nc sr fmt bps f' where
    hd: "ReadWavHeader_file (fopen_rb bytes) = Some ((nc, sr, fmt, bps, m_num_samples r0), f')"
    by auto
  then show "\<exists>nc sr fmt bps rest.
         ReadWavHeader bytes = Some ((nc, sr, fmt, bps, num_samples r0), rest)"
    by (auto simp add: ReadWavHeader_file_def fopen_rb_def num_samples_def split: option.splits)
next
  assume new: "WavReader_new (Some (fopen_rb bytes)) = Inr r0"
  from WavReader_new_fields [OF new]
  obtain f' where op: "m_file_handle r0 = Some f'"
    and eq: "m_num_samples_remaining r0 = m_num_samples r0"
    by auto
  show "\<forall>ns. \<exists>t r'. ReadSamples_seq r0 ns = Inr (t, r') \<and> t \<le> unat (num_samples r0)"
  proof
    fix ns
    from ReadSamples_seq_open [OF op, of ns]
    obtain t r' where "ReadSamples_seq r0 ns = Inr (t, r')"
      and "t + unat (m_num_samples_remaining r') = unat (m_num_samples_remaining r0)"
      by blast
    then show "\<exists>t r'. ReadSamples_seq r0 ns = Inr (t, r') \<and> t \<le> unat (num_samples r0)"
      using eq by (auto simp add: num_samples_def)
  qed
qed

text \<open>The example file, opened and read.\<close>

lemma WavReader_new_wav_file_4:
  "WavReader_new (Some (fopen_rb wav_file_4)) = Inr (reader_4 44 4)"
  by (simp add: WavReader_new_def ReadWavHeader_file_def fopen_rb_def wav_file_4_def reader_4_def
      const_defs codec_defs ReadFourCC_eq)

lemma ReadSamples_reader_4:
  "ReadSamples (reader_4 44 4) 10 = Inr (4, [1, - 1, 100, - 100], reader_4 52 0)"
  by (simp add: ReadSamples_def reader_4_def fread_def wav_file_4_def Let_def)


lemma ReadSamples_reader_4_end:
  "ReadSamples (reader_4 52 0) 10 = Inr (0, [], reader_4 52 0)"
  by (simp add: ReadSamples_def reader_4_def fread_def wav_file_4_def Let_def)

lemma ReadSamples_seq_reader_4:
  "ReadSamples_seq (reader_4 44 4) [10, 10] = Inr (4, reader_4 52 0)"
  by (simp add: ReadSamples_reader_4 ReadSamples_reader_4_end)

theorem ReadSamples_clamped_to_remaining_witness:
  "m_file_handle (reader_4 44 4) = Some \<lparr> contents = wav_file_4, pos = 44, eof = False \<rparr> \<and>
   WavReader_new (Some (fopen_rb wav_file_4)) = Inr (reader_4 44 4) \<and>
   length wav_file_4 = 44 + 2 * 4 + 5 \<and>
   (\<exists>k xs r' f'. ReadSamples (reader_4 44 4) 10 = Inr (k, xs, r') \<and>
      m_file_handle r' = Some f' \<and> length xs = unat k \<and>
      unat k \<le> min (unat (10 :: size_t)) (unat (m_num_samples_remaining (reader_4 44 4))) \<and>
      pos f' \<le> pos \<lparr> contents = wav_file_4, pos = 44, eof = False \<rparr> +
                 2 * min (unat (10 :: size_t)) (unat (m_num_samples_remaining (reader_4 44 4))) \<and>
      unat (m_num_samples_remaining r') =
        unat (m_num_samples_remaining (reader_4 44 4)) - unat k) \<and>
   (\<forall>ns. \<exists>t r'. ReadSamples_seq (reader_4 44 4) ns = Inr (t, r') \<and>
      t \<le> unat (num_samples (reader_4 44 4))) \<and>
   unat (num_samples (reader_4 44 4)) = 4"
proof -
  have h1: "m_file_handle (reader_4 44 4) =
              Some \<lparr> contents = wav_file_4, pos = 44, eof = False \<rparr>"
    by (simp add: reader_4_def)
  have h2: "WavReader_new (Some (fopen_rb wav_file_4)) = Inr (reader_4 44 4)"
    by (rule WavReader_new_wav_file_4)
  have h3: "length wav_file_4 = 44 + 2 * 4 + 5"
    by (simp add: wav_file_4_def)
  have h4: "unat (num_samples (reader_4 44 4)) = 4"
    by (simp add: num_samples_def reader_4_def)
  from ReadSamples_clamped_to_remaining
         [of "reader_4 44 4" "\<lparr> contents = wav_file_4, pos = 44, eof = False \<rparr>" 10
             wav_file_4 "reader_4 44 4"]
       h1 h2 h3 h4
  show ?thesis by blast
qed

lemma WavReader_new_then_seq:
  assumes new: "WavReader_new fh = Inr r0" and sq: "ReadSamples_seq r0 ns = Inr (t, r1)"
  shows "m_num_samples r1 = m_num_samples r0"
    and "t + unat (m_num_samples_remaining r1) = unat (m_num_samples r0)"
proof -
  from WavReader_new_fields [OF new]
  obtain f' where op: "m_file_handle r0 = Some f'"
    and eq: "m_num_samples_remaining r0 = m_num_samples r0"
    by auto
  from ReadSamples_seq_open [OF op, of ns] sq
  show "m_num_samples r1 = m_num_samples r0"
    and "t + unat (m_num_samples_remaining r1) = unat (m_num_samples r0)"
    using eq by auto
qed

text \<open>The reads of the overload for \<^verbatim>\<open>float\<close> buffers.\<close>

lemma ReadSamples_step:
  assumes "ReadSamples r n = Inr (k, xs, r')"
  shows "m_num_samples r' = m_num_samples r" and "m_sample_rate r' = m_sample_rate r"
    and "m_num_channels r' = m_num_channels r"
    and "m_num_samples_remaining r' \<le> m_num_samples_remaining r"
proof -
  from assms obtain f where op: "m_file_handle r = Some f"
    unfolding ReadSamples_def Let_def by (auto split: option.splits)
  from ReadSamples_open [OF op, of n] assms
  have "unat (m_num_samples_remaining r') \<le> unat (m_num_samples_remaining r)"
    by auto
  then show "m_num_samples_remaining r' \<le> m_num_samples_remaining r"
    by (simp add: word_le_nat_alt)
  from ReadSamples_frame [OF assms]
  show "m_num_samples r' = m_num_samples r" and "m_sample_rate r' = m_sample_rate r"
    and "m_num_channels r' = m_num_channels r"
    by simp_all
qed

lemma ReadSamples_float_loop_frame_aux:
  assumes "ReadSamples_float_loop n r samples i rd = Some y"
  shows "\<forall>k samples' r'. y = Inr (k, samples', r') \<longrightarrow> reader_unchanged r r'"
proof (rule ReadSamples_float_loop.raw_induct
         [where P = "\<lambda>n r samples i rd y.
                       \<forall>k samples' r'. y = Inr (k, samples', r') \<longrightarrow> reader_unchanged r r'",
          OF _ assms])
  fix rec n r samples i rd y
  assume IH: "\<And>n r samples i rd y. rec n r samples i rd = Some y \<Longrightarrow>
                \<forall>k samples' r'. y = Inr (k, samples', r') \<longrightarrow> reader_unchanged r r'"
    and body: "(if i < n
      then
        (case ReadSamples r (min (of_nat kChunksize) (n - i)) of
           Inl e \<Rightarrow> Some (Inl e)
         | Inr (chunk, isamples, r') \<Rightarrow>
             (case store_samples samples (unat i) isamples of
                None \<Rightarrow> Some (Inl UndefinedBehaviour)
              | Some samples' \<Rightarrow> rec n r' samples' (i + of_nat kChunksize) (rd + chunk)))
      else Some (Inr (rd, samples, r))) = Some y"
  show "\<forall>k samples' r'. y = Inr (k, samples', r') \<longrightarrow> reader_unchanged r r'"
  proof (cases "i < n")
    case False
    with body have "y = Inr (rd, samples, r)" by simp
    then show ?thesis by (simp add: reader_unchanged_def)
  next
    case True
    show ?thesis
    proof (cases "ReadSamples r (min (of_nat kChunksize) (n - i))")
      case (Inl e)
      with True body have "y = Inl e" by simp
      then show ?thesis by simp
    next
      case (Inr t)
      obtain chunk isamples r1 where t: "t = (chunk, isamples, r1)"
        by (cases t) auto
      have rs: "ReadSamples r (min (of_nat kChunksize) (n - i)) = Inr (chunk, isamples, r1)"
        using Inr t by simp
      from ReadSamples_step [OF rs]
      have st: "reader_unchanged r r1" by (simp add: reader_unchanged_def)
      show ?thesis
      proof (cases "store_samples samples (unat i) isamples")
        case None
        with True rs body have "y = Inl UndefinedBehaviour" by simp
        then show ?thesis by simp
      next
        case (Some s1)
        with True rs body
        have "rec n r1 s1 (i + of_nat kChunksize) (rd + chunk) = Some y"
          by simp
        from IH [OF this] have "\<forall>k samples' r'. y = Inr (k, samples', r') \<longrightarrow> reader_unchanged r1 r'" .
        with st show ?thesis
          unfolding reader_unchanged_def by (metis order_trans)
      qed
    qed
  qed
qed

lemma ReadSamples_float_frame:
  assumes "ReadSamples_float r n samples = Some (Inr (k, samples', r'))"
  shows "m_num_samples r' = m_num_samples r" and "m_sample_rate r' = m_sample_rate r"
    and "m_num_channels r' = m_num_channels r"
    and "m_num_samples_remaining r' \<le> m_num_samples_remaining r"
  using ReadSamples_float_loop_frame_aux [OF assms [unfolded ReadSamples_float_def]]
  by (simp_all add: reader_unchanged_def)


lemma f32_of_sample_examples:
  "f32_of_int 1 = 0x3F800000"
  "f32_of_int (- 1) = 0xBF800000"
  "f32_of_int 100 = 0x42C80000"
  "f32_of_int (- 100) = 0xC2C80000"
  by (simp_all add: f32_of_int_def f32_round_def f32_pack_def bit_length.simps Let_def)

lemma ReadSamples_float_reader_4:
  "ReadSamples_float (reader_4 44 4) 10 [0, 0, 0, 0, 0, 0] =
     Some (Inr (4, [0x3F800000, 0xBF800000, 0x42C80000, 0xC2C80000, 0, 0], reader_4 52 0))"
  unfolding ReadSamples_float_def
  apply (subst ReadSamples_float_loop.simps)
  apply (simp add: kChunksize_def ReadSamples_reader_4 f32_of_sample_examples)
  apply (subst ReadSamples_float_loop.simps)
  apply (simp add: kChunksize_def)
  done

text \<open>
  C10. The reader has two counters. A call of \<^verbatim>\<open>ReadSamples\<close>, of either overload,
  leaves what \<^verbatim>\<open>num_samples()\<close> returns unchanged. The constructor sets it to the sample count
  decoded from the header and starts the remaining counter at the same value; after
  any sequence of reads \<^verbatim>\<open>num_samples()\<close> still returns that total, and only the
  remaining counter has gone down, by the number of samples returned.
\<close>

theorem num_samples_fixed_by_ReadSamples:
  "(ReadSamples r n = Inr (k, xs, r') \<longrightarrow> num_samples r' = num_samples r) \<and>
   (ReadSamples_float r n buf = Some (Inr (kf, buf', rf)) \<longrightarrow> num_samples rf = num_samples r) \<and>
   (WavReader_new fh = Inr r0 \<longrightarrow>
      m_num_samples_remaining r0 = num_samples r0 \<and>
      (\<exists>f nc sr fmt bps f'. fh = Some f \<and>
         ReadWavHeader_file f = Some ((nc, sr, fmt, bps, num_samples r0), f')) \<and>
      (\<forall>ns t r1. ReadSamples_seq r0 ns = Inr (t, r1) \<longrightarrow>
         num_samples r1 = num_samples r0 \<and>
         t + unat (m_num_samples_remaining r1) = unat (num_samples r0)))"
proof -
  have a: "num_samples r' = num_samples r" if "ReadSamples r n = Inr (k, xs, r')"
    using that by (simp add: num_samples_def ReadSamples_frame)
  have a': "num_samples rf = num_samples r"
    if "ReadSamples_float r n buf = Some (Inr (kf, buf', rf))"
    using ReadSamples_float_frame(1) [OF that] by (simp add: num_samples_def)
  have b: "m_num_samples_remaining r0 = num_samples r0" if "WavReader_new fh = Inr r0"
    using WavReader_new_fields [OF that] by (auto simp add: num_samples_def)
  have c: "\<exists>f nc sr fmt bps f'. fh = Some f \<and>
             ReadWavHeader_file f = Some ((nc, sr, fmt, bps, num_samples r0), f')"
    if "WavReader_new fh = Inr r0"
    using WavReader_new_fields [OF that] unfolding num_samples_def by blast
  have d: "num_samples r1 = num_samples r0 \<and>
           t + unat (m_num_samples_remaining r1) = unat (num_samples r0)"
    if "WavReader_new fh = Inr r0" and "ReadSamples_seq r0 ns = Inr (t, r1)" for ns t r1
    using WavReader_new_then_seq [OF that] by (simp add: num_samples_def)
  from a a' b c d show ?thesis by blast
qed

theorem num_samples_fixed_by_ReadSamples_witness:
  "ReadSamples (reader_4 44 4) 10 = Inr (4, [1, - 1, 100, - 100], reader_4 52 0) \<and>
   ReadSamples_float (reader_4 44 4) 10 [0, 0, 0, 0, 0, 0] =
     Some (Inr (4, [0x3F800000, 0xBF800000, 0x42C80000, 0xC2C80000, 0, 0], reader_4 52 0)) \<and>
   WavReader_new (Some (fopen_rb wav_file_4)) = Inr (reader_4 44 4) \<and>
   ReadSamples_seq (reader_4 44 4) [10, 10] = Inr (4, reader_4 52 0) \<and>
   num_samples (reader_4 52 0) = num_samples (reader_4 44 4) \<and>
   m_num_samples_remaining (reader_4 44 4) = num_samples (reader_4 44 4) \<and>
   4 + unat (m_num_samples_remaining (reader_4 52 0)) = unat (num_samples (reader_4 44 4)) \<and>
   num_samples (reader_4 44 4) = 4 \<and> m_num_samples_remaining (reader_4 52 0) = 0"
proof -
  have h4: "num_samples (reader_4 44 4) = 4" "m_num_samples_remaining (reader_4 52 0) = 0"
    by (simp_all add: num_samples_def reader_4_def)
  from num_samples_fixed_by_ReadSamples
         [of "reader_4 44 4" 10 4 "[1, - 1, 100, - 100]" "reader_4 52 0"
             "[0, 0, 0, 0, 0, 0]" 4 "[0x3F800000, 0xBF800000, 0x42C80000, 0xC2C80000, 0, 0]"
             "reader_4 52 0" "Some (fopen_rb wav_file_4)" "reader_4 44 4"]
       ReadSamples_reader_4 ReadSamples_float_reader_4 WavReader_new_wav_file_4
       ReadSamples_seq_reader_4 h4
  show ?thesis by blast
qed

section \<open>Sample conversion\<close>

lemmas f32_defs =
  f32_sign_def f32_exp_def f32_frac_def f32_isnan_def f32_isinf_def f32_mag_def f32_num_def
  f32_pack_def f32_nan_def f32_half_def f32_round_def f32_add_def f32_neg_def f32_sub_def
  f32_of_int_def f32_gt_def f32_ge_def f32_le_def f32_to_int16_def int16_max_def int16_min_def

lemma sint_int16_limits: "sint int16_min = - 32768" "sint int16_max = 32767"
  by (simp_all add: int16_min_def int16_max_def)

lemma kMaxRound_eq: "kMaxRound = 0x46FFFD00"
  by (simp add: kMaxRound_def sint_int16_limits f32_defs bit_length.simps Let_def)

lemma kMinRound_eq: "kMinRound = 0xC6FFFF00"
  by (simp add: kMinRound_def sint_int16_limits f32_defs bit_length.simps Let_def)

lemma f32_num_kMaxRound: "f32_num kMaxRound = 65533 * 2 ^ 148" "\<not> f32_isnan kMaxRound"
  by (simp_all add: kMaxRound_eq f32_defs)

lemma f32_num_kMinRound: "f32_num kMinRound = - (65535 * 2 ^ 148)" "\<not> f32_isnan kMinRound"
  by (simp_all add: kMinRound_eq f32_defs)

lemma f32_zero: "f32_of_int 0 = 0" "f32_num 0 = 0" "\<not> f32_isnan 0"
  by (simp_all add: f32_defs)

text \<open>Every value at or above \<open>kMaxRound\<close> (32766.5), plus infinity included, maps to 32767.\<close>

lemma FloatS16ToS16_saturates_high:
  assumes "f32_ge v kMaxRound"
  shows "FloatS16ToS16 v = Some int16_max"
proof -
  from assms have "\<not> f32_isnan v" and "f32_num kMaxRound \<le> f32_num v"
    by (simp_all add: f32_ge_def)
  then have "f32_gt v (f32_of_int 0)"
    by (simp add: f32_gt_def f32_zero f32_num_kMaxRound)
  with assms show ?thesis by (simp add: FloatS16ToS16_def)
qed

text \<open>Every value at or below \<open>kMinRound\<close> (-32767.5), minus infinity included, maps to -32768.\<close>

lemma FloatS16ToS16_saturates_low:
  assumes "f32_le v kMinRound"
  shows "FloatS16ToS16 v = Some int16_min"
proof -
  from assms have "f32_num v \<le> f32_num kMinRound"
    by (simp add: f32_le_def)
  then have "\<not> f32_gt v (f32_of_int 0)"
    by (simp add: f32_gt_def f32_zero f32_num_kMinRound)
  with assms show ?thesis by (simp add: FloatS16ToS16_def)
qed

lemmas FloatS16ToS16_eval =
  FloatS16ToS16_def kMaxRound_eq kMinRound_eq f32_defs bit_length.simps Let_def

text \<open>
  The conversions of 40000.0, -40000.0, 100.4 (the \<^verbatim>\<open>float\<close> nearest to it), 100.6,
  100.5 and -100.5.
\<close>

lemma FloatS16ToS16_examples:
  "FloatS16ToS16 0x471C4000 = Some 32767"
  "FloatS16ToS16 0xC71C4000 = Some (- 32768)"
  "FloatS16ToS16 0x42C8CCCD = Some 100"
  "FloatS16ToS16 0x42C93333 = Some 101"
  "FloatS16ToS16 0x42C90000 = Some 101"
  "FloatS16ToS16 0xC2C90000 = Some (- 101)"
  by (simp_all add: FloatS16ToS16_eval)

subsection \<open>Rounding of the sum with one half\<close>

text \<open>\<open>bit_length n\<close> is the position of the leading one of \<open>n\<close>.\<close>

lemma bit_length_bounds:
  "0 < n \<Longrightarrow> 2 ^ (bit_length n - 1) \<le> n \<and> n < 2 ^ bit_length n"
proof (induction n rule: bit_length.induct)
  case (1 n)
  show ?case
  proof (cases "n div 2 = 0")
    case True
    with "1.prems" have "n = 1" by (auto simp add: div_eq_0_iff)
    then show ?thesis by (simp add: bit_length.simps)
  next
    case False
    then have pos: "0 < n div 2" by simp
    from "1.IH" [OF _ pos] "1.prems"
    have ih: "2 ^ (bit_length (n div 2) - 1) \<le> n div 2" "n div 2 < 2 ^ bit_length (n div 2)"
      by auto
    have bl: "bit_length n = Suc (bit_length (n div 2))"
      using "1.prems" by (subst bit_length.simps) simp
    have blpos: "0 < bit_length (n div 2)"
      using pos by (subst bit_length.simps) simp
    have "2 ^ (bit_length (n div 2) - 1) * 2 \<le> n"
      using ih(1) by linarith
    moreover have "(2 :: nat) ^ (bit_length (n div 2) - 1) * 2 = 2 ^ bit_length (n div 2)"
      using blpos by (cases "bit_length (n div 2)") auto
    moreover have "n < 2 * 2 ^ bit_length (n div 2)"
      using ih(2) by linarith
    ultimately show ?thesis by (simp add: bl)
  qed
qed

lemma bit_length_eq:
  assumes "2 ^ k \<le> n" and "n < 2 ^ Suc k"
  shows "bit_length n = Suc k"
proof -
  have pos: "0 < n" using assms(1) by (metis less_le_trans zero_less_numeral zero_less_power)
  note b = bit_length_bounds [OF pos]
  have "(2 :: nat) ^ k < 2 ^ bit_length n" using assms(1) b by linarith
  then have "k < bit_length n"
    using power_less_imp_less_exp [of 2 k "bit_length n"] by simp
  moreover have "(2 :: nat) ^ (bit_length n - 1) < 2 ^ Suc k" using assms(2) b by linarith
  then have "bit_length n - 1 < Suc k"
    using power_less_imp_less_exp [of 2 "bit_length n - 1" "Suc k"] by simp
  ultimately show ?thesis by linarith
qed

text \<open>The three fields of a packed pattern.\<close>

lemma f32_unpack:
  assumes "e < 256" and "f < 2 ^ 23"
  shows "f32_sign (f32_pack s e f) = s" and "f32_exp (f32_pack s e f) = e"
    and "f32_frac (f32_pack s e f) = f"
proof -
  define k where "k = (if s then 256 else 0) + e"
  have k: "k < 512" using assms by (simp add: k_def)
  have "(if s then 2 ^ 31 else 0) + e * 2 ^ 23 + f = f + k * 2 ^ 23"
    by (simp add: k_def)
  moreover have "f + k * 2 ^ 23 < 2 ^ 32" using k assms by simp
  moreover have "unat (of_nat (f + k * 2 ^ 23) :: 32 word) = (f + k * 2 ^ 23) mod 2 ^ 32"
    by (simp only: unat_of_nat) simp
  ultimately have u: "unat (f32_pack s e f) = f + k * 2 ^ 23"
    unfolding f32_pack_def by (simp only: mod_less)
  have d: "(f + k * 2 ^ 23) div 2 ^ 23 = k"
    using assms(2) by (simp only: div_mult_self1) simp
  have m: "(f + k * 2 ^ 23) mod 2 ^ 23 = f"
    using assms(2) by (simp only: mod_mult_self1) simp
  show "f32_exp (f32_pack s e f) = e"
    unfolding f32_exp_def u d using assms(1) by (simp add: k_def)
  show "f32_frac (f32_pack s e f) = f"
    unfolding f32_frac_def u m ..
  have "2 ^ 31 \<le> f + k * 2 ^ 23 \<longleftrightarrow> 256 \<le> k"
    using assms(2) by auto
  then show "f32_sign (f32_pack s e f) = s"
    unfolding f32_sign_def u using assms(1) by (simp add: k_def)
qed

text \<open>The magnitude of a packed value.\<close>

lemma f32_mag_pack:
  assumes "0 < e" and "e < 256" and "f < 2 ^ 23"
  shows "f32_mag (f32_pack s e f) = (2 ^ 23 + f) * 2 ^ (e - 1)"
  using assms by (simp add: f32_mag_def f32_unpack)

text \<open>
  Above the subnormal range \<open>f32_round\<close> either keeps the leading 24 bits of \<open>m\<close> or
  adds one to them; it adds one only when the dropped bits are at least half a unit,
  and at exactly half only when the kept bits are odd.
\<close>

lemma f32_round_cases:
  assumes "2 ^ 24 \<le> m" and "bit_length m = sh + 24"
  shows "f32_round s m =
           (if 255 \<le> sh + 1 then f32_pack s 255 0
            else f32_pack s (sh + 1) (m div 2 ^ sh - 2 ^ 23)) \<or>
         (f32_round s m =
           (if m div 2 ^ sh + 1 = 2 ^ 24
            then (if 255 \<le> sh + 2 then f32_pack s 255 0 else f32_pack s (sh + 2) 0)
            else (if 255 \<le> sh + 1 then f32_pack s 255 0
                  else f32_pack s (sh + 1) (m div 2 ^ sh + 1 - 2 ^ 23))) \<and>
          2 ^ (sh - 1) \<le> m mod 2 ^ sh \<and>
          (m mod 2 ^ sh = 2 ^ (sh - 1) \<longrightarrow> odd (m div 2 ^ sh)))"
proof -
  have nlt: "\<not> m < 2 ^ 24" using assms(1) by simp
  have sh: "bit_length m - 24 = sh" using assms(2) by simp
  have q: "m div 2 ^ sh < 2 ^ 24"
  proof -
    have "0 < m" using assms(1) by (metis less_le_trans zero_less_numeral zero_less_power)
    from bit_length_bounds [OF this] have "m < 2 ^ (sh + 24)" by (simp add: assms(2))
    then have "m < 2 ^ 24 * 2 ^ sh" by (simp add: power_add mult.commute)
    then show ?thesis by (simp add: div_less_iff_less_mult)
  qed
  show ?thesis
  proof (cases "2 ^ (sh - 1) < m mod 2 ^ sh \<or> (m mod 2 ^ sh = 2 ^ (sh - 1) \<and> odd (m div 2 ^ sh))")
    case False
    then have "f32_round s m =
           (if 255 \<le> sh + 1 then f32_pack s 255 0
            else f32_pack s (sh + 1) (m div 2 ^ sh - 2 ^ 23))"
      using q by (simp only: f32_round_def Let_def nlt sh if_False) auto
    then show ?thesis by blast
  next
    case True
    then have "f32_round s m =
           (if m div 2 ^ sh + 1 = 2 ^ 24
            then (if 255 \<le> sh + 2 then f32_pack s 255 0 else f32_pack s (sh + 2) 0)
            else (if 255 \<le> sh + 1 then f32_pack s 255 0
                  else f32_pack s (sh + 1) (m div 2 ^ sh + 1 - 2 ^ 23)))"
      by (simp only: f32_round_def Let_def nlt sh if_False if_True) auto
    moreover from True have "2 ^ (sh - 1) \<le> m mod 2 ^ sh \<and>
          (m mod 2 ^ sh = 2 ^ (sh - 1) \<longrightarrow> odd (m div 2 ^ sh))"
      by auto
    ultimately show ?thesis by blast
  qed
qed

text \<open>Powers of two, and the sum of a magnitude with one half (\<open>2 ^ 148\<close>).\<close>

lemma pow2_split: "j \<le> n \<Longrightarrow> (2 :: nat) ^ n = 2 ^ (n - j) * 2 ^ j"
  by (simp add: power_add [symmetric])

lemma mod_pow2_add:
  fixes a sh :: nat
  assumes "sh \<le> 148"
  shows "(a + 2 ^ 148) mod 2 ^ sh = a mod (2 :: nat) ^ sh"
proof -
  have "(2 :: nat) ^ 148 = 2 ^ (148 - sh) * 2 ^ sh" using assms by (rule pow2_split)
  then show ?thesis by (simp only: mod_mult_self1)
qed

text \<open>
  A magnitude with a nonzero bit below position \<open>sh\<close> has its leading bit below
  position \<open>sh + 23\<close>: a binary32 value has 24 significant bits.
\<close>

lemma mag_below_binade:
  fixes a f e sh :: nat
  assumes f: "f < 2 ^ 23"
    and a: "a = (if e = 0 then f else (2 ^ 23 + f) * 2 ^ (e - 1))"
    and r: "0 < a mod 2 ^ sh"
  shows "a < 2 ^ (sh + 23) \<and> (e \<noteq> 0 \<longrightarrow> e - 1 < sh)"
proof (cases "e = 0")
  case True
  then have "a < 2 ^ 23" using f a by simp
  also have "(2 :: nat) ^ 23 \<le> 2 ^ (sh + 23)" by (rule power_increasing) simp_all
  finally show ?thesis using True by simp
next
  case False
  then have a': "a = (2 ^ 23 + f) * 2 ^ (e - 1)" using a by simp
  have g: "e - 1 < sh"
  proof (rule ccontr)
    assume "\<not> e - 1 < sh"
    then have "sh \<le> e - 1" by simp
    then have "(2 :: nat) ^ (e - 1) = 2 ^ (e - 1 - sh) * 2 ^ sh" by (rule pow2_split)
    then have "a = (2 ^ 23 + f) * 2 ^ (e - 1 - sh) * 2 ^ sh" using a' by simp
    then have "a mod 2 ^ sh = 0" by (simp only: mod_mult_self2_is_0)
    with r show False by simp
  qed
  have "a < 2 ^ 24 * 2 ^ (e - 1)"
    unfolding a' using f by (intro mult_strict_right_mono) simp_all
  also have "\<dots> = 2 ^ (e - 1 + 24)" by (simp add: power_add)
  also have "\<dots> \<le> 2 ^ (sh + 23)" using g by (intro power_increasing) simp_all
  finally show ?thesis using g by simp
qed

text \<open>
  The heart of the matter. When the sum \<open>a + 2 ^ 148\<close> is rounded up, the rounded
  value does not reach the next integer, except from the one pattern with exponent
  field 125 and all fraction bits set (the value just below one half).
\<close>

lemma round_up_not_dvd:
  fixes a f e sh :: nat
  assumes f: "f < 2 ^ 23"
    and a: "a = (if e = 0 then f else (2 ^ 23 + f) * 2 ^ (e - 1))"
    and sh: "125 \<le> sh" "sh \<le> 140"
    and lo: "2 ^ (sh + 23) \<le> a + 2 ^ 148"
    and r: "2 ^ (sh - 1) \<le> (a + 2 ^ 148) mod 2 ^ sh"
    and nex: "\<not> (e = 125 \<and> f = 2 ^ 23 - 1)"
  shows "\<not> 2 ^ (149 - sh) dvd Suc ((a + 2 ^ 148) div 2 ^ sh)"
proof
  define m where "m = a + 2 ^ 148"
  define q where "q = m div 2 ^ sh"
  assume "2 ^ (149 - sh) dvd Suc ((a + 2 ^ 148) div 2 ^ sh)"
  then have dv: "2 ^ (149 - sh) dvd Suc q" by (simp add: q_def m_def)
  have rm: "2 ^ (sh - 1) \<le> m mod 2 ^ sh" using r by (simp add: m_def)
  have "(0 :: nat) < 2 ^ (sh - 1)" by simp
  with rm have "0 < m mod 2 ^ sh" by linarith
  moreover have "m mod 2 ^ sh = a mod 2 ^ sh"
    unfolding m_def using sh(2) by (intro mod_pow2_add) simp
  ultimately have ra: "0 < a mod 2 ^ sh" by simp
  from mag_below_binade [OF f a ra]
  have ab: "a < 2 ^ (sh + 23)" and g: "e \<noteq> 0 \<longrightarrow> e - 1 < sh" by simp_all
  have p148: "(2 :: nat) ^ 148 = 2 ^ (148 - sh) * 2 ^ sh"
    using sh(2) by (intro pow2_split) simp
  have "m < 2 ^ (sh + 23) + 2 ^ 148" using ab by (simp add: m_def)
  also have "(2 :: nat) ^ (sh + 23) + 2 ^ 148 = (2 ^ 23 + 2 ^ (148 - sh)) * 2 ^ sh"
  proof -
    have "(2 :: nat) ^ (sh + 23) = 2 ^ 23 * 2 ^ sh" by (simp add: power_add)
    with p148 show ?thesis by (simp only: distrib_right)
  qed
  finally have qhi: "q < 2 ^ 23 + 2 ^ (148 - sh)"
    unfolding q_def by (simp add: div_less_iff_less_mult)
  have "2 ^ 23 * 2 ^ sh \<le> m" using lo by (simp add: m_def power_add mult.commute)
  then have qlo: "2 ^ 23 \<le> q"
    unfolding q_def by (simp add: less_eq_div_iff_mult_less_eq)
  show False
  proof (cases "sh = 125")
    case False
    with sh have k: "149 - sh \<le> 23" by simp
    then have "(2 :: nat) ^ 23 = 2 ^ (23 - (149 - sh)) * 2 ^ (149 - sh)"
      by (rule pow2_split)
    then have "(2 :: nat) ^ (149 - sh) dvd 2 ^ 23" by (metis dvd_triv_right)
    with dv have "2 ^ (149 - sh) dvd Suc q - 2 ^ 23" by (rule dvd_diff_nat)
    moreover have "0 < Suc q - 2 ^ 23" using qlo by simp
    ultimately have "2 ^ (149 - sh) \<le> Suc q - 2 ^ 23" by (rule dvd_imp_le)
    moreover have "Suc q - 2 ^ 23 \<le> 2 ^ (148 - sh)" using qhi by simp
    moreover have "(2 :: nat) ^ (148 - sh) < 2 ^ (149 - sh)"
      using sh(2) by (intro power_strict_increasing) simp_all
    ultimately show False by linarith
  next
    case True
    have "Suc q \<le> 2 ^ 24" using qhi True by simp
    moreover have "2 ^ 24 \<le> Suc q"
      using dv True by (intro dvd_imp_le) simp_all
    ultimately have q: "q = 2 ^ 24 - 1" by simp
    have "m = q * 2 ^ 125 + m mod 2 ^ 125"
      unfolding q_def True by simp
    with rm True q have "(2 ^ 24 - 1) * 2 ^ 125 + 2 ^ 124 \<le> m" by simp
    then have alo: "2 ^ 148 - 2 ^ 124 \<le> a" by (simp add: m_def)
    have e0: "e \<noteq> 0"
    proof
      assume "e = 0"
      then have "a < 2 ^ 23" using a f by simp
      with alo show False by simp
    qed
    then have a': "a = (2 ^ 23 + f) * 2 ^ (e - 1)" using a by simp
    from g e0 True have gle: "e - 1 \<le> 124" by simp
    have "e - 1 = 124"
    proof (rule ccontr)
      assume "e - 1 \<noteq> 124"
      with gle have "e - 1 \<le> 123" by simp
      then have "(2 :: nat) ^ (e - 1) \<le> 2 ^ 123" by (intro power_increasing) simp_all
      moreover have "2 ^ 23 + f < 2 ^ 24" using f by simp
      ultimately have "(2 ^ 23 + f) * 2 ^ (e - 1) < 2 ^ 24 * 2 ^ 123"
        by (intro mult_less_le_imp_less) simp_all
      with a' alo show False by simp
    qed
    then have e: "e = 125" using e0 by simp
    have "(2 ^ 24 - 1) * 2 ^ 124 \<le> (2 ^ 23 + f) * (2 :: nat) ^ 124"
      using alo a' \<open>e - 1 = 124\<close> by simp
    then have "2 ^ 24 - 1 \<le> 2 ^ 23 + f" by simp
    with f have "f = 2 ^ 23 - 1" by simp
    with e nex show False by simp
  qed
qed

text \<open>
  So the rounded sum and the exact sum have the same integer part, for every magnitude
  below the saturation bounds but that one.
\<close>

lemma round_mag:
  fixes a f e :: nat
  assumes f: "f < 2 ^ 23"
    and a: "a = (if e = 0 then f else (2 ^ 23 + f) * 2 ^ (e - 1))"
    and range: "a + 2 ^ 148 < 2 ^ 164"
    and nex: "\<not> (e = 125 \<and> f = 2 ^ 23 - 1)"
  shows "\<exists>e' f'. f32_round s (a + 2 ^ 148) = f32_pack s e' f' \<and>
           0 < e' \<and> e' < 255 \<and> f' < 2 ^ 23 \<and>
           ((2 ^ 23 + f') * 2 ^ (e' - 1)) div 2 ^ 149 = (a + 2 ^ 148) div 2 ^ 149"
proof -
  define m where "m = a + 2 ^ 148"
  have mlo: "2 ^ 148 \<le> m" by (simp add: m_def)
  have mhi: "m < 2 ^ 164" using range by (simp add: m_def)
  have mpos: "0 < m" using mlo by (metis less_le_trans zero_less_numeral zero_less_power)
  note b = bit_length_bounds [OF mpos]
  have "(2 :: nat) ^ 148 < 2 ^ bit_length m" using mlo b by linarith
  then have bl1: "148 < bit_length m"
    using power_less_imp_less_exp [of 2 148 "bit_length m"] by simp
  have "(2 :: nat) ^ (bit_length m - 1) < 2 ^ 164" using mhi b by linarith
  then have bl2: "bit_length m - 1 < 164"
    using power_less_imp_less_exp [of 2 "bit_length m - 1" 164] by simp
  define sh where "sh = bit_length m - 24"
  have sh: "125 \<le> sh" "sh \<le> 140" and bl: "bit_length m = sh + 24"
    using bl1 bl2 by (simp_all add: sh_def)
  define q where "q = m div 2 ^ sh"
  define k where "k = 149 - sh"
  have p149: "(2 :: nat) ^ 149 = 2 ^ sh * 2 ^ k"
    using sh(2) by (simp add: k_def power_add [symmetric])
  have "sh + 24 - 1 = sh + 23" by simp
  with b bl have lo: "2 ^ (sh + 23) \<le> m" by (simp only:)
  then have "2 ^ 23 * 2 ^ sh \<le> m" by (simp add: power_add mult.commute)
  then have qlo: "2 ^ 23 \<le> q"
    unfolding q_def by (simp add: less_eq_div_iff_mult_less_eq)
  have "m < 2 ^ (sh + 24)" using b bl by simp
  then have "m < 2 ^ 24 * 2 ^ sh" by (simp add: power_add mult.commute)
  then have qhi: "q < 2 ^ 24"
    unfolding q_def by (simp add: div_less_iff_less_mult)
  have mdiv: "m div 2 ^ 149 = q div 2 ^ k"
    unfolding p149 q_def by (rule div_mult2_eq)
  have xdiv: "(x * 2 ^ sh) div 2 ^ 149 = x div 2 ^ k" for x :: nat
    unfolding p149 by (simp add: div_mult2_eq)
  have m24: "2 ^ 24 \<le> m" using mlo by simp
  from f32_round_cases [OF m24 bl, of s]
  show ?thesis
  proof
    assume "f32_round s m =
           (if 255 \<le> sh + 1 then f32_pack s 255 0
            else f32_pack s (sh + 1) (m div 2 ^ sh - 2 ^ 23))"
    then have r: "f32_round s m = f32_pack s (sh + 1) (q - 2 ^ 23)"
      using sh(2) by (simp add: q_def)
    have "(2 ^ 23 + (q - 2 ^ 23)) * 2 ^ (sh + 1 - 1) = q * 2 ^ sh"
      using qlo by simp
    then have "((2 ^ 23 + (q - 2 ^ 23)) * 2 ^ (sh + 1 - 1)) div 2 ^ 149 = m div 2 ^ 149"
      by (simp only: xdiv mdiv)
    moreover have "q - 2 ^ 23 < 2 ^ 23" using qhi by simp
    ultimately show ?thesis
      using r sh(2) unfolding m_def [symmetric]
      by (intro exI [of _ "sh + 1"] exI [of _ "q - 2 ^ 23"]) simp
  next
    assume "f32_round s m =
           (if m div 2 ^ sh + 1 = 2 ^ 24
            then (if 255 \<le> sh + 2 then f32_pack s 255 0 else f32_pack s (sh + 2) 0)
            else (if 255 \<le> sh + 1 then f32_pack s 255 0
                  else f32_pack s (sh + 1) (m div 2 ^ sh + 1 - 2 ^ 23))) \<and>
          2 ^ (sh - 1) \<le> m mod 2 ^ sh \<and>
          (m mod 2 ^ sh = 2 ^ (sh - 1) \<longrightarrow> odd (m div 2 ^ sh))"
    then have r: "f32_round s m =
           (if q + 1 = 2 ^ 24 then f32_pack s (sh + 2) 0
            else f32_pack s (sh + 1) (q + 1 - 2 ^ 23))"
      and up: "2 ^ (sh - 1) \<le> m mod 2 ^ sh"
      using sh(2) by (simp_all add: q_def)
    from round_up_not_dvd [OF f a sh lo [unfolded m_def] up [unfolded m_def] nex]
    have nd: "\<not> 2 ^ k dvd Suc q" by (simp add: k_def q_def m_def)
    then have "Suc q mod 2 ^ k \<noteq> 0" by (simp add: mod_eq_0_iff_dvd)
    then have sq: "Suc q div 2 ^ k = q div 2 ^ k" by (simp add: div_Suc)
    have up_div: "(Suc q * 2 ^ sh) div 2 ^ 149 = m div 2 ^ 149"
      by (simp only: xdiv mdiv sq)
    show ?thesis
    proof (cases "q + 1 = 2 ^ 24")
      case True
      then have "(2 ^ 23 + 0) * 2 ^ (sh + 2 - 1) = Suc q * 2 ^ sh" by simp
      then have "((2 ^ 23 + 0) * 2 ^ (sh + 2 - 1)) div 2 ^ 149 = m div 2 ^ 149"
        by (simp only: up_div)
      then show ?thesis
        using r True sh(2) unfolding m_def [symmetric]
        by (intro exI [of _ "sh + 2"] exI [of _ 0]) simp
    next
      case False
      have "(2 ^ 23 + (q + 1 - 2 ^ 23)) * 2 ^ (sh + 1 - 1) = Suc q * 2 ^ sh"
        using qlo by simp
      then have "((2 ^ 23 + (q + 1 - 2 ^ 23)) * 2 ^ (sh + 1 - 1)) div 2 ^ 149 = m div 2 ^ 149"
        by (simp only: up_div)
      moreover have "q + 1 - 2 ^ 23 < 2 ^ 23" using qhi False by simp
      ultimately show ?thesis
        using r False sh(2) unfolding m_def [symmetric]
        by (intro exI [of _ "sh + 1"] exI [of _ "q + 1 - 2 ^ 23"]) simp
    qed
  qed
qed

subsection \<open>The conversion is the rounding of the specification, two values excepted\<close>

text \<open>A pattern is determined by its three fields.\<close>

lemma f32_field_bounds: "f32_exp v < 256" "f32_frac v < 2 ^ 23"
  by (simp_all add: f32_exp_def f32_frac_def)

lemma f32_decompose:
  "unat v = (if f32_sign v then 2 ^ 31 else 0) + f32_exp v * 2 ^ 23 + f32_frac v"
proof -
  define n where "n = unat v"
  define k where "k = n div 8388608"
  have n: "n < 4294967296" using unsigned_less [of v] by (simp add: n_def)
  have k: "k < 512" unfolding k_def using n by (simp add: less_mult_imp_div_less)
  have s: "(2147483648 \<le> n) = (256 \<le> k)"
    unfolding k_def by (simp add: less_eq_div_iff_mult_less_eq)
  have m: "k mod 256 = (if 256 \<le> k then k - 256 else k)"
    using k by (simp add: le_mod_geq)
  define r where "r = n mod 8388608"
  have e: "n = k * 8388608 + r" unfolding k_def r_def by simp
  have g: "n = (if 256 \<le> k then 2147483648 else 0)
            + (if 256 \<le> k then k - 256 else k) * 8388608 + r"
  proof (cases "256 \<le> k")
    case True
    then have "k * 8388608 = 2147483648 + (k - 256) * 8388608" by arith
    with e True show ?thesis by (simp only: if_True)
  next
    case False
    with e show ?thesis by (simp only: if_False add_0)
  qed
  have sg: "f32_sign v = (256 \<le> k)"
    using s by (simp add: f32_sign_def n_def)
  have ex: "f32_exp v = (if 256 \<le> k then k - 256 else k)"
    using m by (simp add: f32_exp_def k_def n_def)
  have fr: "f32_frac v = r"
    by (simp add: f32_frac_def r_def n_def)
  have "unat v = (if 256 \<le> k then 2147483648 else 0)
            + (if 256 \<le> k then k - 256 else k) * 8388608 + r"
    using g by (simp only: n_def)
  then show ?thesis
    unfolding sg ex fr by simp
qed

lemma f32_half_pattern:
  assumes "f32_exp v = 125" and "f32_frac v = 2 ^ 23 - 1"
  shows "v = (if f32_sign v then 0xBEFFFFFF else 0x3EFFFFFF)"
proof -
  have "unat v = (if f32_sign v then 3204448255 else 1056964607)"
    using f32_decompose [of v] assms by simp
  then have "unat v = unat (if f32_sign v then 0xBEFFFFFF else 0x3EFFFFFF :: 32 word)"
    by simp
  then show ?thesis by (simp only: word_unat_eq_iff)
qed

text \<open>The conversion to \<^verbatim>\<open>int16_t\<close> of a packed normal value.\<close>

lemma f32_to_int16_pack:
  assumes "0 < e" and "e < 255" and "f < 2 ^ 23"
    and "((2 ^ 23 + f) * 2 ^ (e - 1)) div 2 ^ 149 = t" and "t \<le> 32767"
  shows "f32_to_int16 (f32_pack s e f) = Some (word_of_int (if s then - int t else int t))"
  using assms
  by (simp add: f32_to_int16_def f32_isnan_def f32_isinf_def f32_unpack f32_mag_pack Let_def)

text \<open>Adding and subtracting one half.\<close>

lemma f32_half_facts:
  "\<not> f32_isnan f32_half" "\<not> f32_isinf f32_half" "f32_num f32_half = 2 ^ 148"
  "\<not> f32_isnan (f32_neg f32_half)" "\<not> f32_isinf (f32_neg f32_half)"
  "f32_num (f32_neg f32_half) = - (2 ^ 148)"
  by (simp_all add: f32_defs)

lemma f32_add_half:
  assumes "\<not> f32_isnan v" and "\<not> f32_isinf v" and "\<not> f32_sign v"
  shows "f32_add v f32_half = f32_round False (f32_mag v + 2 ^ 148)"
proof -
  have "f32_num v + f32_num f32_half = int (f32_mag v + 2 ^ 148)"
    using assms(3) by (simp add: f32_num_def [of v] f32_half_facts)
  then show ?thesis
    using assms(1,2) unfolding f32_add_def Let_def
    by (simp add: f32_half_facts del: of_nat_add)
qed

lemma f32_sub_half:
  assumes "\<not> f32_isnan v" and "\<not> f32_isinf v" and "f32_sign v \<or> f32_mag v = 0"
  shows "f32_sub v f32_half = f32_round True (f32_mag v + 2 ^ 148)"
proof -
  have "f32_num v + f32_num (f32_neg f32_half) = - int (f32_mag v + 2 ^ 148)"
    using assms(3) by (auto simp add: f32_num_def [of v] f32_half_facts)
  then show ?thesis
    using assms(1,2) unfolding f32_sub_def f32_add_def Let_def
    by (simp add: f32_half_facts del: of_nat_add)
qed

lemma f32_isinf_mag: "f32_isinf v \<Longrightarrow> f32_mag v = 2 ^ 277"
  by (simp add: f32_isinf_def f32_mag_def)

lemma half_div:
  fixes x :: nat
  assumes "x < 65535 * 2 ^ 148"
  shows "(x + 2 ^ 148) div 2 ^ 149 \<le> 32767"
proof -
  have "x + 2 ^ 148 < 32768 * 2 ^ 149" using assms by simp
  then have "(x + 2 ^ 148) div 2 ^ 149 < 32768" by (simp add: less_mult_imp_div_less)
  then show ?thesis by simp
qed

text \<open>The two rounding branches of \<open>FloatS16ToS16\<close>.\<close>

lemma FloatS16ToS16_positive:
  assumes nan: "\<not> f32_isnan v" and s: "\<not> f32_sign v"
    and hi: "f32_mag v < 65533 * 2 ^ 148" and ne: "v \<noteq> 0x3EFFFFFF"
  shows "f32_to_int16 (f32_add v f32_half)
           = Some (word_of_int (int ((f32_mag v + 2 ^ 148) div 2 ^ 149)))"
proof -
  have inf: "\<not> f32_isinf v" using hi f32_isinf_mag [of v] by auto
  have range: "f32_mag v + 2 ^ 148 < 2 ^ 164" using hi by simp
  have nex: "\<not> (f32_exp v = 125 \<and> f32_frac v = 2 ^ 23 - 1)"
    using f32_half_pattern [of v] s ne by auto
  from round_mag [OF f32_field_bounds(2) f32_mag_def range nex, of False]
  obtain e' f' where r: "f32_round False (f32_mag v + 2 ^ 148) = f32_pack False e' f'"
    and e': "0 < e'" "e' < 255" and f': "f' < 2 ^ 23"
    and d: "((2 ^ 23 + f') * 2 ^ (e' - 1)) div 2 ^ 149 = (f32_mag v + 2 ^ 148) div 2 ^ 149"
    by blast
  have t: "(f32_mag v + 2 ^ 148) div 2 ^ 149 \<le> 32767"
    using hi by (intro half_div) simp
  from f32_to_int16_pack [OF e' f' d t, of False] r f32_add_half [OF nan inf s]
  show ?thesis by simp
qed

lemma FloatS16ToS16_negative:
  assumes nan: "\<not> f32_isnan v" and s: "f32_sign v \<or> f32_mag v = 0"
    and hi: "f32_mag v < 65535 * 2 ^ 148" and ne: "v \<noteq> 0xBEFFFFFF"
  shows "f32_to_int16 (f32_sub v f32_half)
           = Some (word_of_int (- int ((f32_mag v + 2 ^ 148) div 2 ^ 149)))"
proof -
  have inf: "\<not> f32_isinf v" using hi f32_isinf_mag [of v] by auto
  have range: "f32_mag v + 2 ^ 148 < 2 ^ 164" using hi by simp
  have nex: "\<not> (f32_exp v = 125 \<and> f32_frac v = 2 ^ 23 - 1)"
  proof
    assume p: "f32_exp v = 125 \<and> f32_frac v = 2 ^ 23 - 1"
    then have "f32_mag v \<noteq> 0" by (simp add: f32_mag_def)
    with s have "f32_sign v" by simp
    with f32_half_pattern [of v] p ne show False by simp
  qed
  from round_mag [OF f32_field_bounds(2) f32_mag_def range nex, of True]
  obtain e' f' where r: "f32_round True (f32_mag v + 2 ^ 148) = f32_pack True e' f'"
    and e': "0 < e'" "e' < 255" and f': "f' < 2 ^ 23"
    and d: "((2 ^ 23 + f') * 2 ^ (e' - 1)) div 2 ^ 149 = (f32_mag v + 2 ^ 148) div 2 ^ 149"
    by blast
  have t: "(f32_mag v + 2 ^ 148) div 2 ^ 149 \<le> 32767"
    using hi by (rule half_div)
  from f32_to_int16_pack [OF e' f' d t, of True] r f32_sub_half [OF nan inf s]
  show ?thesis by simp
qed

text \<open>The rounding of the specification, by the sign of its argument.\<close>

lemma round_half_away_from_zero_pos:
  "0 < n \<Longrightarrow> round_half_away_from_zero n = (n + 2 ^ 148) div 2 ^ 149"
  by (simp add: round_half_away_from_zero_def)

lemma round_half_away_from_zero_neg:
  "n \<le> 0 \<Longrightarrow> round_half_away_from_zero n = - ((- n + 2 ^ 148) div 2 ^ 149)"
  by (cases "n = 0") (simp_all add: round_half_away_from_zero_def)

lemma f32_num_cases:
  "(0 < f32_num v \<longrightarrow> \<not> f32_sign v \<and> f32_num v = int (f32_mag v)) \<and>
   (f32_num v \<le> 0 \<longrightarrow> (f32_sign v \<or> f32_mag v = 0) \<and> f32_num v = - int (f32_mag v))"
  by (auto simp add: f32_num_def)

text \<open>
  Apart from the two patterns \<open>0x3EFFFFFF\<close> and \<open>0xBEFFFFFF\<close>, every value that is
  not a NaN (the infinities included) is converted to the nearest integer, a half
  rounded away from zero, clamped to the range of \<^verbatim>\<open>int16_t\<close>.
\<close>

lemma FloatS16ToS16_rounds:
  assumes nan: "\<not> f32_isnan v" and ne: "v \<noteq> 0x3EFFFFFF" "v \<noteq> 0xBEFFFFFF"
  shows "FloatS16ToS16 v = Some (word_of_int (saturate16 (round_half_away_from_zero (f32_num v))))"
proof -
  define N where "N = f32_num v"
  define a where "a = f32_mag v"
  define t where "t = (a + 2 ^ 148) div 2 ^ 149"
  have it: "int t = (int a + 2 ^ 148) div 2 ^ 149"
    by (simp add: t_def zdiv_int)
  consider (high) "f32_ge v kMaxRound" | (low) "f32_le v kMinRound"
    | (pos) "\<not> f32_ge v kMaxRound" "f32_gt v (f32_of_int 0)"
    | (neg) "\<not> f32_le v kMinRound" "\<not> f32_gt v (f32_of_int 0)"
    by blast
  then show ?thesis
  proof cases
    case high
    then have n: "65533 * 2 ^ 148 \<le> N"
      by (simp add: f32_ge_def f32_num_kMaxRound N_def)
    then have "(65533 * 2 ^ 148 + 2 ^ 148) div 2 ^ 149 \<le> (N + 2 ^ 148) div 2 ^ 149"
      by (intro zdiv_mono1) simp_all
    then have "32767 \<le> (N + 2 ^ 148) div 2 ^ 149" by simp
    moreover have "0 < N" using n by simp
    ultimately have "saturate16 (round_half_away_from_zero N) = 32767"
      by (simp add: round_half_away_from_zero_pos saturate16_def)
    with FloatS16ToS16_saturates_high [OF high] show ?thesis
      by (simp add: N_def int16_max_def)
  next
    case low
    then have n: "N \<le> - (65535 * 2 ^ 148)"
      by (simp add: f32_le_def f32_num_kMinRound N_def)
    then have "(65535 * 2 ^ 148 + 2 ^ 148) div 2 ^ 149 \<le> (- N + 2 ^ 148) div 2 ^ 149"
      by (intro zdiv_mono1) simp_all
    then have "32768 \<le> (- N + 2 ^ 148) div 2 ^ 149" by simp
    moreover have "N \<le> 0" using n by simp
    ultimately have "saturate16 (round_half_away_from_zero N) = - 32768"
      by (simp add: round_half_away_from_zero_neg saturate16_def)
    with FloatS16ToS16_saturates_low [OF low] show ?thesis
      by (simp add: N_def int16_min_def)
  next
    case pos
    from pos(2) have n0: "0 < N" by (simp add: f32_gt_def f32_zero N_def)
    with f32_num_cases [of v] have s: "\<not> f32_sign v" and na: "N = int a"
      by (simp_all add: N_def a_def)
    from pos(1) nan have "N < 65533 * 2 ^ 148"
      by (simp add: f32_ge_def f32_num_kMaxRound N_def)
    then have hi: "a < 65533 * 2 ^ 148" using na by simp
    then have t: "t \<le> 32767" unfolding t_def by (intro half_div) simp
    have "round_half_away_from_zero N = (N + 2 ^ 148) div 2 ^ 149"
      using n0 by (rule round_half_away_from_zero_pos)
    also have "\<dots> = int t" by (simp only: na it)
    finally have "saturate16 (round_half_away_from_zero N) = int t"
      using t by (simp add: saturate16_def)
    moreover have "FloatS16ToS16 v = Some (word_of_int (int t))"
      using pos FloatS16ToS16_positive [OF nan s hi [unfolded a_def] ne(1)]
      by (simp add: FloatS16ToS16_def t_def a_def)
    ultimately show ?thesis by (simp add: N_def)
  next
    case neg
    from neg(2) nan have n0: "N \<le> 0" by (simp add: f32_gt_def f32_zero N_def)
    with f32_num_cases [of v] have s: "f32_sign v \<or> f32_mag v = 0" and na: "N = - int a"
      by (simp_all add: N_def a_def)
    from neg(1) nan have "- (65535 * 2 ^ 148) < N"
      by (simp add: f32_le_def f32_num_kMinRound N_def)
    then have hi: "a < 65535 * 2 ^ 148" using na by simp
    then have t: "t \<le> 32767" unfolding t_def by (rule half_div)
    have "round_half_away_from_zero N = - ((- N + 2 ^ 148) div 2 ^ 149)"
      using n0 by (rule round_half_away_from_zero_neg)
    also have "\<dots> = - int t" by (simp only: na it minus_minus)
    finally have "saturate16 (round_half_away_from_zero N) = - int t"
      using t by (simp add: saturate16_def)
    moreover have "FloatS16ToS16 v = Some (word_of_int (- int t))"
      using neg FloatS16ToS16_negative [OF nan s hi [unfolded a_def] ne(2)]
      by (simp add: FloatS16ToS16_def t_def a_def)
    ultimately show ?thesis by (simp add: N_def)
  qed
qed

text \<open>
  C5. The claim is that the conversion rounds half away from zero and saturates. The
  saturation and the four conversions it lists hold (\<open>FloatS16ToS16_saturates_high\<close>,
  \<open>FloatS16ToS16_saturates_low\<close>, \<open>FloatS16ToS16_examples\<close>). Rounding to the nearest
  integer fails at the largest \<^verbatim>\<open>float\<close> below one half, \<open>0x3EFFFFFF\<close>, which is
  \<open>1/2 - 2\<^sup>-\<^sup>2\<^sup>5\<close>: the exact sum with 0.5 lies midway between two \<^verbatim>\<open>float\<close> values
  and the addition rounds it to 1.0, so the result is 1 and not 0; the negated input
  gives -1. Everywhere else the conversion is the rounding the claim describes
  (\<open>FloatS16ToS16_rounds\<close>).
\<close>

theorem FloatS16ToS16_just_below_half:
  "0 < f32_num 0x3EFFFFFF \<and> f32_num 0x3EFFFFFF < f32_num f32_half \<and>
   f32_num f32_half = 2 ^ 148 \<and>
   f32_add 0x3EFFFFFF f32_half = 0x3F800000 \<and>
   f32_to_int16 0x3F800000 = Some 1 \<and>
   FloatS16ToS16 0x3EFFFFFF = Some 1 \<and>
   FloatS16ToS16 0xBEFFFFFF = Some (- 1)"
  by (simp add: FloatS16ToS16_eval)

section \<open>Writing samples\<close>

text \<open>What a successful 16-bit write leaves and establishes.\<close>

lemma WriteSamples_frame:
  assumes "WriteSamples w xs = Inr w'"
  shows "m_sample_rate w' = m_sample_rate w" and "m_num_channels w' = m_num_channels w"
    and "m_num_samples w' = m_num_samples w + ucast (of_nat (length xs) :: size_t)"
    and "CheckWavParameters (m_num_channels w) (m_sample_rate w) kWavFormat kBytesPerSample
           (m_num_samples w')"
  using assms unfolding WriteSamples_def Let_def
  by (auto split: option.splits if_splits)


lemma CheckWavParameters_16_bit_count:
  assumes "CheckWavParameters c r kWavFormat kBytesPerSample n"
  shows "unat n \<le> 2147483629"
proof -
  from assms have "\<not> n > (ucast (((ucast UINT32_MAX :: size_t)
                             - (kWavHeaderSize - sizeof_ChunkHeader))
                            div (scast kBytesPerSample :: size_t)) :: uint32_t)"
    unfolding CheckWavParameters_def Let_def by (auto split: if_splits)
  then show ?thesis
    by (simp add: const_defs word_less_nat_alt)
qed

text \<open>A write of fewer than \<open>2 ^ 31\<close> samples adds its length to the counter.\<close>

lemma WriteSamples_counter_small:
  assumes valid: "CheckWavParameters (m_num_channels w) (m_sample_rate w) kWavFormat
                    kBytesPerSample (m_num_samples w)"
    and small: "length xs < 2147483648"
    and ok: "WriteSamples w xs = Inr w'"
  shows "unat (m_num_samples w') = unat (m_num_samples w) + length xs"
proof -
  have n: "unat (m_num_samples w) \<le> 2147483629"
    using valid by (rule CheckWavParameters_16_bit_count)
  have "unat (ucast (of_nat (length xs) :: size_t) :: uint32_t) = length xs"
    using small by (simp add: unsigned_ucast_eq take_bit_eq_mod unat_of_nat)
  moreover from this n small
  have "unat (m_num_samples w) + unat (ucast (of_nat (length xs) :: size_t) :: uint32_t) < 2 ^ 32"
    by simp
  ultimately have "unat (m_num_samples w + ucast (of_nat (length xs) :: size_t))
                     = unat (m_num_samples w) + length xs"
    using unat_add_lem [of "m_num_samples w" "ucast (of_nat (length xs) :: size_t) :: uint32_t",
                        THEN iffD1]
    by simp
  then show ?thesis
    using WriteSamples_frame(3) [OF ok] by simp
qed

lemma length_FloatS16ToS16_array:
  "FloatS16ToS16_array src = Some dest \<Longrightarrow> length dest = length src"
  by (induction src arbitrary: dest) (auto split: option.splits)

text \<open>A floating-point write that succeeds adds the number of samples to the counter.\<close>

lemma WriteSamples_float_loop_counter:
  assumes "CheckWavParameters (m_num_channels w) (m_sample_rate w) kWavFormat
             kBytesPerSample (m_num_samples w)"
    and "WriteSamples_float_loop w samples i = Inr w'"
  shows "unat (m_num_samples w') = unat (m_num_samples w) + (length samples - i) \<and>
         m_sample_rate w' = m_sample_rate w \<and> m_num_channels w' = m_num_channels w"
  using assms
proof (induction w samples i rule: WriteSamples_float_loop.induct)
  case (1 w samples i)
  show ?case
  proof (cases "i < length samples")
    case False
    with "1.prems"(2) show ?thesis
      by (simp add: WriteSamples_float_loop.simps [of w samples i])
  next
    case True
    define chunk where "chunk = min kChunksize (length samples - i)"
    from "1.prems"(2) True obtain isamples w1 where
      conv: "FloatS16ToS16_array (take chunk (drop i samples)) = Some isamples"
      and wr: "WriteSamples w isamples = Inr w1"
      and rest: "WriteSamples_float_loop w1 samples (i + kChunksize) = Inr w'"
      unfolding chunk_def
      by (subst (asm) WriteSamples_float_loop.simps)
         (auto simp add: Let_def split: option.splits sum.splits)
    have len: "length isamples = chunk"
      using length_FloatS16ToS16_array [OF conv] True by (simp add: chunk_def)
    have "chunk \<le> 2048" by (simp add: chunk_def kChunksize_def)
    then have small: "length isamples < 2147483648" using len by simp
    note fr = WriteSamples_frame [OF wr]
    have c1: "unat (m_num_samples w1) = unat (m_num_samples w) + chunk"
      using WriteSamples_counter_small [OF "1.prems"(1) small wr] len by simp
    have valid1: "CheckWavParameters (m_num_channels w1) (m_sample_rate w1) kWavFormat
                    kBytesPerSample (m_num_samples w1)"
      using fr by simp
    from "1.IH" [OF True chunk_def conv wr [symmetric, THEN sym] valid1 rest]
    have ih: "unat (m_num_samples w') =
                unat (m_num_samples w1) + (length samples - (i + kChunksize))"
      and fr': "m_sample_rate w' = m_sample_rate w1" "m_num_channels w' = m_num_channels w1"
      by simp_all
    have "chunk + (length samples - (i + kChunksize)) = length samples - i"
      using True by (simp add: chunk_def min_def)
    with ih c1 fr fr' show ?thesis by simp
  qed
qed

lemma FloatS16ToS16_zero: "FloatS16ToS16 0 = Some 0"
  by (simp add: FloatS16ToS16_eval)

lemma FloatS16ToS16_array_zeros: "FloatS16ToS16_array (replicate n 0) = Some (replicate n 0)"
  by (induction n) (simp_all add: FloatS16ToS16_zero)

lemma WavWriter_new_3: "WavWriter_new (Some fopen_wb) 8000 3 = Inr writer_3"
  by (simp add: WavWriter_new_def fopen_wb_def fwrite_def writer_3_def
      CheckWavParameters_def const_defs)

text \<open>
  C7. The claim is that a floating-point write of a multiple of the channel count
  succeeds whenever the totals are representable. With three channels and no samples
  written yet, a floating-point write of 3072 samples (a multiple of three, and a total
  the validator accepts) fails: the first chunk of 2048 samples is passed to the 16-bit
  \<^verbatim>\<open>WriteSamples\<close>, whose assertion runs the validator on the total 2048, which is
  not a multiple of three. The 16-bit write of the same 3072 samples succeeds.
\<close>

theorem WriteSamples_float_three_channels:
  "WavWriter_new (Some fopen_wb) 8000 3 = Inr writer_3 \<and>
   num_channels writer_3 = 3 \<and> num_samples writer_3 = 0 \<and>
   (3072 :: nat) mod 3 = 0 \<and>
   CheckWavParameters 3 8000 kWavFormat kBytesPerSample 3072 \<and>
   WriteSamples_float writer_3 (replicate 3072 0) = Inl AssertionFailed \<and>
   (case WriteSamples writer_3 (replicate 3072 0) of
      Inl e \<Rightarrow> False
    | Inr w \<Rightarrow> num_samples w = 3072)"
proof -
  have "WriteSamples_float writer_3 (replicate 3072 0) = Inl AssertionFailed"
    unfolding WriteSamples_float_def
    by (subst WriteSamples_float_loop.simps)
       (simp add: kChunksize_def FloatS16ToS16_array_zeros WriteSamples_def writer_3_def
          CheckWavParameters_def const_defs Let_def)
  moreover have "(case WriteSamples writer_3 (replicate 3072 0) of
      Inl e \<Rightarrow> False | Inr w \<Rightarrow> num_samples w = 3072)"
    by (simp add: WriteSamples_def writer_3_def CheckWavParameters_def const_defs Let_def
        num_samples_def)
  moreover have "CheckWavParameters 3 8000 kWavFormat kBytesPerSample 3072"
    by (simp add: CheckWavParameters_def const_defs)
  ultimately show ?thesis
    by (simp add: WavWriter_new_3) (simp add: writer_3_def num_channels_def num_samples_def)
qed

lemma WavWriter_new_1:
  "(case WavWriter_new (Some fopen_wb) 8000 1 of
      Inl e \<Rightarrow> False
    | Inr w \<Rightarrow> WriteSamples w [0, 0] = Inr writer_1)"
  by (simp add: WavWriter_new_def fopen_wb_def fwrite_def writer_1_def CheckWavParameters_def
      const_defs WriteSamples_def Let_def bytes_of_samples_def bytes16_def)

text \<open>
  C8. The claim is that the sample rate and channel count never change and that the
  writer's counter never decreases over a \<^verbatim>\<open>WriteSamples\<close> call (and the reader's
  remaining counter never increases). With two samples written, a write of 4294967295
  samples passes all three assertions and leaves the counter at 1: the sum wraps
  modulo \<open>2 ^ 32\<close>, and the assertion meant to detect the overflow holds whenever the
  count written fits 32 bits. The other parts hold (\<open>WriteSamples_frame\<close>,
  \<open>WriteSamples_counter_small\<close>, \<open>WriteSamples_float_loop_counter\<close>, \<open>ReadSamples_open\<close>).
\<close>

theorem WriteSamples_counter_wraps:
  "(case WavWriter_new (Some fopen_wb) 8000 1 of
      Inl e \<Rightarrow> False
    | Inr w \<Rightarrow> WriteSamples w [0, 0] = Inr writer_1) \<and>
   num_samples writer_1 = 2 \<and>
   length (replicate 4294967295 (0 :: int16_t)) = 4294967295 \<and>
   (case WriteSamples writer_1 (replicate 4294967295 0) of
      Inl e \<Rightarrow> False
    | Inr w \<Rightarrow> num_samples w = 1 \<and> sample_rate w = 8000 \<and> num_channels w = 1)"
proof -
  have "(case WriteSamples writer_1 (replicate 4294967295 0) of
      Inl e \<Rightarrow> False
    | Inr w \<Rightarrow> num_samples w = 1 \<and> sample_rate w = 8000 \<and> num_channels w = 1)"
    by (simp add: WriteSamples_def writer_1_def CheckWavParameters_def const_defs Let_def
        num_samples_def sample_rate_def num_channels_def)
  moreover have "num_samples writer_1 = 2"
    by (simp add: writer_1_def num_samples_def)
  ultimately show ?thesis
    using WavWriter_new_1 by simp
qed

end
